theory Spec2Isabelle
  imports Main "HOL-Library.Word"
begin

unbundle bit_operations_syntax

section \<open>Values of the script\<close>

text \<open>
  The script \<^verbatim>\<open>src/tbcml/files/base_script.js\<close> runs inside an instrumented Android
  process. Its functions are thin wrappers around primitives of the instrumentation
  runtime, Frida (\<^verbatim>\<open>Module\<close>, \<^verbatim>\<open>Process\<close>, \<^verbatim>\<open>NativePointer\<close>, \<^verbatim>\<open>Java\<close>,
  \<^verbatim>\<open>rpc\<close>) and of JavaScript (\<^verbatim>\<open>console\<close>, \<^verbatim>\<open>String\<close>). The script's functions are
  translated one by one below, in the order of the source and under their names; the
  primitives they call are functions on a record that describes the process.

  JavaScript values that reach a comparison in the script: \<^verbatim>\<open>undefined\<close> (also the
  value of an omitted argument), \<^verbatim>\<open>null\<close>, booleans, numbers and strings.
\<close>

datatype jsval = JUndefined | JNull | JBool bool | JNum int | JStr string

text \<open>
  A template literal is kept as the sequence of its literal chunks and substituted
  values; turning a substituted value into text is the JavaScript runtime's \<^verbatim>\<open>ToString\<close>
  and is not part of the script. A plain string \<^verbatim>\<open>"abc"\<close> is \<open>[Lit ''abc'']\<close>.
\<close>

datatype 'p piece =
    Lit string
  | Subst jsval
  | Json "(string \<times> jsval) list"
  | Ptr "'p option"
  | Txt string
  | IntVal int

type_synonym 'a message = "'a word piece list"

datatype error =
    AccessViolation
  | TypeError
  | CastError
  | ClassNotFoundException
  | IndexOutOfBoundsException
  | MalformedURLException
  | IOException
  | Unterminated
  | DecodeError

section \<open>Strings between JavaScript and memory\<close>

text \<open>
  A JavaScript string is a sequence of UTF-16 code units; in memory a string is its UTF-8
  bytes. The runtime converts between the two in \<^verbatim>\<open>writeUtf8String\<close> and
  \<^verbatim>\<open>readUtf8String\<close>. The functions below work on numbers, the code units and bytes as
  \<open>nat\<close>.

  Writing a string encodes it: a high surrogate followed by a low one is one code point
  above \<open>0xFFFF\<close>, every other unit is its own code point. A surrogate that stands alone
  is not a code point: the V8 runtime writes U+FFFD in its place, the QuickJS runtime writes
  the surrogate itself in three bytes.
\<close>

type_synonym utf8 = "8 word list"

type_synonym utf16 = "16 word list"

datatype js_runtime = V8 | QuickJS

definition is_high :: "nat \<Rightarrow> bool" where
  "is_high u = (0xD800 \<le> u \<and> u < 0xDC00)"

definition is_low :: "nat \<Rightarrow> bool" where
  "is_low u = (0xDC00 \<le> u \<and> u < 0xE000)"

definition is_surrogate :: "nat \<Rightarrow> bool" where
  "is_surrogate u = (0xD800 \<le> u \<and> u < 0xE000)"

definition lone :: "js_runtime \<Rightarrow> nat \<Rightarrow> nat" where
  "lone rt u = (case rt of V8 \<Rightarrow> 0xFFFD | QuickJS \<Rightarrow> u)"

fun code_points :: "js_runtime \<Rightarrow> nat list \<Rightarrow> nat list" where
  "code_points rt [] = []"
| "code_points rt [u] = [if is_surrogate u then lone rt u else u]"
| "code_points rt (u # v # us) =
     (if is_high u \<and> is_low v
      then (0x10000 + (u - 0xD800) * 1024 + (v - 0xDC00)) # code_points rt us
      else (if is_surrogate u then lone rt u else u) # code_points rt (v # us))"

definition cp_to_utf8 :: "nat \<Rightarrow> nat list" where
  "cp_to_utf8 c =
     (if c < 0x80 then [c]
      else if c < 0x800 then [0xC0 + c div 64, 0x80 + c mod 64]
      else if c < 0x10000 then [0xE0 + c div 64 div 64, 0x80 + c div 64 mod 64, 0x80 + c mod 64]
      else [0xF0 + c div 64 div 64 div 64, 0x80 + c div 64 div 64 mod 64,
            0x80 + c div 64 mod 64, 0x80 + c mod 64])"

text \<open>
  Reading a string decodes its bytes and throws on bytes that are not UTF-8: a stray or
  missing continuation byte, an overlong form, a surrogate, or a value above \<open>0x10FFFF\<close>.
\<close>

definition continuation :: "nat \<Rightarrow> bool" where
  "continuation b = (0x80 \<le> b \<and> b < 0xC0)"

fun utf8_code_points :: "nat list \<Rightarrow> nat list option" where
  "utf8_code_points [] = Some []"
| "utf8_code_points (b0 # bs) =
     (if b0 < 0x80 then map_option ((#) b0) (utf8_code_points bs)
      else if 0xC2 \<le> b0 \<and> b0 < 0xE0 then
        (case bs of
           b1 # r \<Rightarrow>
             if continuation b1
             then map_option ((#) ((b0 - 0xC0) * 64 + (b1 - 0x80))) (utf8_code_points r)
             else None
         | _ \<Rightarrow> None)
      else if 0xE0 \<le> b0 \<and> b0 < 0xF0 then
        (case bs of
           b1 # b2 # r \<Rightarrow>
             (let c = ((b0 - 0xE0) * 64 + (b1 - 0x80)) * 64 + (b2 - 0x80) in
              if continuation b1 \<and> continuation b2 \<and> 0x800 \<le> c \<and> \<not> is_surrogate c
              then map_option ((#) c) (utf8_code_points r)
              else None)
         | _ \<Rightarrow> None)
      else if 0xF0 \<le> b0 \<and> b0 < 0xF8 then
        (case bs of
           b1 # b2 # b3 # r \<Rightarrow>
             (let c = (((b0 - 0xF0) * 64 + (b1 - 0x80)) * 64 + (b2 - 0x80)) * 64 + (b3 - 0x80) in
              if continuation b1 \<and> continuation b2 \<and> continuation b3
                 \<and> 0x10000 \<le> c \<and> c < 0x110000
              then map_option ((#) c) (utf8_code_points r)
              else None)
         | _ \<Rightarrow> None)
      else None)"

definition code_units :: "nat \<Rightarrow> nat list" where
  "code_units c =
     (if c < 0x10000 then [c]
      else [0xD800 + (c - 0x10000) div 1024, 0xDC00 + (c - 0x10000) mod 1024])"

text \<open>A string is well formed when none of its surrogates stands alone.\<close>

fun well_formed :: "nat list \<Rightarrow> bool" where
  "well_formed [] = True"
| "well_formed [u] = (\<not> is_surrogate u)"
| "well_formed (u # v # us) =
     (if is_high u then is_low v \<and> well_formed us
      else \<not> is_surrogate u \<and> well_formed (v # us))"

text \<open>A scalar value: a code point that is not a surrogate.\<close>

definition scalar :: "nat \<Rightarrow> bool" where
  "scalar c = (c < 0x110000 \<and> \<not> is_surrogate c)"

definition utf8_encode :: "js_runtime \<Rightarrow> utf16 \<Rightarrow> utf8" where
  "utf8_encode rt str = map of_nat (concat (map cp_to_utf8 (code_points rt (map unat str))))"

definition utf8_decode :: "utf8 \<Rightarrow> utf16 option" where
  "utf8_decode bs =
     map_option (\<lambda>cs. map of_nat (concat (map code_units cs))) (utf8_code_points (map unat bs))"

section \<open>The instrumented process\<close>

text \<open>
  Observable calls into the runtime, in the order they happen: the five methods of
  \<^verbatim>\<open>android.util.Log\<close> with their tag, the methods of \<^verbatim>\<open>console\<close>, a class lookup on
  a class loader, and the calls of the HTTP fetch.
\<close>

datatype priority = Log_e | Log_w | Log_i | Log_v | Log_d

datatype console_method = Console_error | Console_warn | Console_info | Console_log

datatype 'p event =
    AndroidLog priority string "'p piece list"
  | Console console_method "'p piece list"
  | FindClass nat string
  | OpenConnection string
  | ReadLine
  | CloseReader

text \<open>
  Objects of the Java heap that the script touches. A handle is the index of the object;
  a new object is added at the end, so handles of existing objects stay valid.
  A \<^verbatim>\<open>java.nio.ByteBuffer\<close> has its limit and its bytes; a Java \<^verbatim>\<open>byte\<close> is a signed
  8-bit value.
\<close>

datatype jobject =
    JavaString string
  | ByteBuffer nat "8 word list"
  | OtherObject string

text \<open>
  A class loader: its identity and the class names its \<^verbatim>\<open>findClass\<close> resolves (on any
  other name \<^verbatim>\<open>findClass\<close> throws \<^verbatim>\<open>ClassNotFoundException\<close>).
\<close>

record loader =
  loader_id :: nat
  resolves :: "string \<Rightarrow> bool"

record app =
  packageName :: string
  versionCode :: int

text \<open>
  What a \<^verbatim>\<open>BufferedReader\<close> gives at its \<open>n\<close>-th call of \<^verbatim>\<open>readLine\<close>: a line,
  \<^verbatim>\<open>null\<close> at the end of the stream, or an \<^verbatim>\<open>IOException\<close>.
\<close>

datatype line = Line string | EndOfStream | ReadFails

text \<open>
  The process: the JavaScript runtime the script runs on, the loaded modules with their base
  addresses, the mapped memory, the architecture name, the Java heap, the class loaders,
  the current application if there is one, what a URL answers, and the trace of calls.
\<close>

record 'p proc =
  runtime :: js_runtime
  modules :: "string \<Rightarrow> 'p option"
  memory :: "'p \<Rightarrow> 8 word option"
  arch :: string
  objects :: "jobject list"
  classLoaders :: "loader list"
  application :: "app option"
  network :: "string \<Rightarrow> error + (nat \<Rightarrow> line)"
  trace :: "'p event list"

text \<open>A pointer of the process is a machine word; its width is the pointer size.\<close>

type_synonym 'a process = "'a word proc"

definition emit :: "'a word event \<Rightarrow> 'a process \<Rightarrow> 'a process" where
  "emit e s = s\<lparr>trace := trace s @ [e]\<rparr>"

text \<open>
  \<^verbatim>\<open>Java.perform(fn)\<close> runs \<open>fn\<close> attached to the VM; the script uses it as a scoped
  call: enter, run the body, return. (While the application's class loader is not there
  yet the runtime puts \<open>fn\<close> off until it is; the model runs it at once.)
\<close>

definition Java_perform :: "('a process \<Rightarrow> 'a process) \<Rightarrow> 'a process \<Rightarrow> 'a process" where
  "Java_perform fn s = fn s"

text \<open>\<^verbatim>\<open>Java.use("android.util.Log")\<close> and its static methods \<^verbatim>\<open>e, w, i, v, d\<close>.\<close>

definition Log_call :: "priority \<Rightarrow> string \<Rightarrow> 'a message \<Rightarrow> 'a process \<Rightarrow> 'a process" where
  "Log_call p tag message s = emit (AndroidLog p tag message) s"

definition console_call :: "console_method \<Rightarrow> 'a message \<Rightarrow> 'a process \<Rightarrow> 'a process" where
  "console_call c message s = emit (Console c message) s"

section \<open>Logging\<close>

definition logError :: "'a message \<Rightarrow> 'a process \<Rightarrow> 'a process" where
  "logError message s =
     Java_perform (\<lambda>s. console_call Console_error message (Log_call Log_e ''tbcml'' message s)) s"

definition logWarning :: "'a message \<Rightarrow> 'a process \<Rightarrow> 'a process" where
  "logWarning message s =
     Java_perform (\<lambda>s. console_call Console_warn message (Log_call Log_w ''tbcml'' message s)) s"

definition logInfo :: "'a message \<Rightarrow> 'a process \<Rightarrow> 'a process" where
  "logInfo message s =
     Java_perform (\<lambda>s. console_call Console_info message (Log_call Log_i ''tbcml'' message s)) s"

definition logVerbose :: "'a message \<Rightarrow> 'a process \<Rightarrow> 'a process" where
  "logVerbose message s =
     Java_perform (\<lambda>s. console_call Console_log message (Log_call Log_v ''tbcml'' message s)) s"

definition logDebug :: "'a message \<Rightarrow> 'a process \<Rightarrow> 'a process" where
  "logDebug message s =
     Java_perform (\<lambda>s. console_call Console_log message (Log_call Log_d ''tbcml'' message s)) s"

text \<open>
  \<^verbatim>\<open>function log(message, level = "info")\<close>: the default is taken when the argument is
  omitted or \<^verbatim>\<open>undefined\<close>; the \<^verbatim>\<open>switch\<close> compares with \<^verbatim>\<open>===\<close>, so a level that
  is not a string matches no case.
\<close>

definition log :: "'a message \<Rightarrow> jsval \<Rightarrow> 'a process \<Rightarrow> 'a process" where
  "log message level0 s =
     (let level = (if level0 = JUndefined then JStr ''info'' else level0) in
      if level = JStr ''error'' then logError message s
      else if level = JStr ''warning'' then logWarning message s
      else if level = JStr ''info'' then logInfo message s
      else if level = JStr ''verbose'' then logVerbose message s
      else if level = JStr ''debug'' then logDebug message s
      else logInfo message s)"

section \<open>Native memory\<close>

text \<open>
  \<^verbatim>\<open>Process.pointerSize\<close>, in bytes, and \<^verbatim>\<open>NativePointer.add\<close>, which wraps around
  at the pointer width.
\<close>

definition pointerSize :: "'a::len process \<Rightarrow> nat" where
  "pointerSize s = LENGTH('a) div 8"

definition ptr_add :: "'a::len word \<Rightarrow> nat \<Rightarrow> 'a word" where
  "ptr_add p n = p + of_nat n"

text \<open>\<^verbatim>\<open>Module.findBaseAddress(name)\<close>: the base address, or \<^verbatim>\<open>null\<close> for a module that is not loaded.\<close>

definition Module_findBaseAddress :: "'a::len process \<Rightarrow> string \<Rightarrow> 'a word option" where
  "Module_findBaseAddress s name = modules s name"

text \<open>
  The byte at an address, if the address is mapped. The address 0 is never mapped. Reading
  or writing an address that is not mapped throws an access violation.
\<close>

definition byte_at :: "'a::len process \<Rightarrow> 'a word \<Rightarrow> 8 word option" where
  "byte_at s p = (if p = 0 then None else memory s p)"

definition readU8 :: "'a::len process \<Rightarrow> 'a word \<Rightarrow> error + 8 word" where
  "readU8 s p = (case byte_at s p of None \<Rightarrow> Inl AccessViolation | Some b \<Rightarrow> Inr b)"

fun read_bytes :: "'a::len process \<Rightarrow> 'a word \<Rightarrow> nat \<Rightarrow> error + 8 word list" where
  "read_bytes s p 0 = Inr []"
| "read_bytes s p (Suc n) =
     (case byte_at s p of
        None \<Rightarrow> Inl AccessViolation
      | Some b \<Rightarrow> (case read_bytes s (p + 1) n of Inl e \<Rightarrow> Inl e | Inr bs \<Rightarrow> Inr (b # bs)))"

fun le_nat :: "8 word list \<Rightarrow> nat" where
  "le_nat [] = 0"
| "le_nat (b # bs) = unat b + 256 * le_nat bs"

text \<open>\<^verbatim>\<open>readPointer()\<close>: the pointer stored at the address, little-endian as on every Android ABI.\<close>

definition readPointer :: "'a::len process \<Rightarrow> 'a word \<Rightarrow> error + 'a word" where
  "readPointer s p =
     (case read_bytes s p (pointerSize s) of Inl e \<Rightarrow> Inl e | Inr bs \<Rightarrow> Inr (of_nat (le_nat bs)))"

text \<open>
  \<^verbatim>\<open>readUtf8String()\<close> without a size gives \<^verbatim>\<open>null\<close> on the NULL pointer, and
  otherwise reads up to the first NUL byte and decodes the bytes read. The scan visits every
  address at most once, so it ends within \<open>2 ^ LENGTH('a)\<close> steps; \<open>Unterminated\<close> stands
  for a scan that finds neither a NUL byte nor an address that is not mapped.
\<close>

fun read_cstr :: "nat \<Rightarrow> 'a::len process \<Rightarrow> 'a word \<Rightarrow> error + utf8" where
  "read_cstr 0 s p = Inl Unterminated"
| "read_cstr (Suc fuel) s p =
     (case byte_at s p of
        None \<Rightarrow> Inl AccessViolation
      | Some b \<Rightarrow>
          if b = 0 then Inr []
          else (case read_cstr fuel s (p + 1) of Inl e \<Rightarrow> Inl e | Inr bs \<Rightarrow> Inr (b # bs)))"

definition readUtf8String :: "'a::len process \<Rightarrow> 'a word \<Rightarrow> error + utf16 option" where
  "readUtf8String s p =
     (if p = 0 then Inr None
      else (case read_cstr (2 ^ LENGTH('a)) s p of
              Inl e \<Rightarrow> Inl e
            | Inr bs \<Rightarrow>
                (case utf8_decode bs of None \<Rightarrow> Inl DecodeError | Some str \<Rightarrow> Inr (Some str))))"

text \<open>
  \<^verbatim>\<open>writeUtf8String(str)\<close> encodes the string and writes its bytes up to the first NUL,
  and a NUL terminator, one address after the other; a write to an address that is not
  mapped throws, with the bytes before it written.
\<close>

fun write_bytes :: "'a::len process \<Rightarrow> 'a word \<Rightarrow> 8 word list \<Rightarrow> 'a process \<times> (error + unit)" where
  "write_bytes s p [] = (s, Inr ())"
| "write_bytes s p (b # bs) =
     (case byte_at s p of
        None \<Rightarrow> (s, Inl AccessViolation)
      | Some _ \<Rightarrow> write_bytes (s\<lparr>memory := (memory s)(p \<mapsto> b)\<rparr>) (p + 1) bs)"

definition writeUtf8String :: "'a::len process \<Rightarrow> 'a word \<Rightarrow> utf16 \<Rightarrow> 'a process \<times> (error + unit)" where
  "writeUtf8String s p str =
     write_bytes s p (takeWhile (\<lambda>b. b \<noteq> 0) (utf8_encode (runtime s) str) @ [0])"

section \<open>Native strings and the base address\<close>

definition getBaseAddress :: "'a::len process \<Rightarrow> 'a word option" where
  "getBaseAddress s =
     (let base_address = Module_findBaseAddress s ''libnative-lib.so'' in
      if base_address = None then None
      else Some (ptr_add (the base_address) 4096))"

definition readStdString :: "'a::len process \<Rightarrow> 'a word \<Rightarrow> error + utf16 option" where
  "readStdString s address =
     (case readU8 s address of
        Inl e \<Rightarrow> Inl e
      | Inr b \<Rightarrow>
          let isTiny = (b AND 1 = 0) in
          if isTiny then readUtf8String s (ptr_add address 1)
          else (case readPointer s (ptr_add address (2 * pointerSize s)) of
                  Inl e \<Rightarrow> Inl e
                | Inr p \<Rightarrow> readUtf8String s p))"

definition writeStdString :: "'a::len word \<Rightarrow> utf16 \<Rightarrow> 'a process \<Rightarrow> 'a process \<times> (error + unit)" where
  "writeStdString address content s =
     (case readU8 s address of
        Inl e \<Rightarrow> (s, Inl e)
      | Inr b \<Rightarrow>
          let isTiny = (b AND 1 = 0) in
          if isTiny then writeUtf8String s (ptr_add address 1) content
          else (case readPointer s (ptr_add address (2 * pointerSize s)) of
                  Inl e \<Rightarrow> (s, Inl e)
                | Inr p \<Rightarrow> writeUtf8String s p content))"

section \<open>Java objects\<close>

text \<open>
  \<^verbatim>\<open>Java.use(name)\<close> gives the wrapper of a class, here its name. \<^verbatim>\<open>Java.cast(handle, C)\<close>
  gives a wrapper of the object at the handle as an instance of \<open>C\<close>, and throws when the
  handle is not an instance of \<open>C\<close>.
\<close>

definition Java_use :: "string \<Rightarrow> string" where
  "Java_use name = name"

datatype wrapper = Wrapper nat string

fun instance_of :: "jobject \<Rightarrow> string \<Rightarrow> bool" where
  "instance_of (JavaString _) C = (C = ''java.lang.String'')"
| "instance_of (ByteBuffer _ _) C = (C = ''java.nio.ByteBuffer'')"
| "instance_of (OtherObject D) C = (C = D)"

definition Java_cast :: "'a process \<Rightarrow> nat \<Rightarrow> string \<Rightarrow> error + wrapper" where
  "Java_cast s handle C =
     (if handle < length (objects s) \<and> instance_of (objects s ! handle) C
      then Inr (Wrapper handle C) else Inl CastError)"

text \<open>
  \<^verbatim>\<open>$new(content)\<close> on a wrapper of \<^verbatim>\<open>java.lang.String\<close> allocates a new string object
  and gives its wrapper.
\<close>

definition String_new :: "wrapper \<Rightarrow> string \<Rightarrow> 'a process \<Rightarrow> 'a process \<times> wrapper" where
  "String_new w content s =
     (s\<lparr>objects := objects s @ [JavaString content]\<rparr>,
      Wrapper (length (objects s)) ''java.lang.String'')"

definition readJString :: "'a process \<Rightarrow> nat \<Rightarrow> error + wrapper" where
  "readJString s address = Java_cast s address (Java_use ''java.lang.String'')"

definition writeJString :: "nat \<Rightarrow> string \<Rightarrow> 'a process \<Rightarrow> 'a process \<times> (error + unit)" where
  "writeJString address content s =
     (case Java_cast s address (Java_use ''java.lang.String'') of
        Inl e \<Rightarrow> (s, Inl e)
      | Inr w \<Rightarrow> (case String_new w content s of (s', _) \<Rightarrow> (s', Inr ())))"

text \<open>
  \<^verbatim>\<open>ByteBuffer.limit()\<close> and the absolute \<^verbatim>\<open>ByteBuffer.get(int)\<close>, which throws at an
  index that is not below the limit. A Java \<^verbatim>\<open>byte\<close> reaches the script as a number from
  -128 to 127.
\<close>

definition ByteBuffer_limit :: "'a process \<Rightarrow> wrapper \<Rightarrow> error + nat" where
  "ByteBuffer_limit s bb =
     (case bb of Wrapper h _ \<Rightarrow>
        if h < length (objects s) then
          (case objects s ! h of ByteBuffer lim _ \<Rightarrow> Inr lim | _ \<Rightarrow> Inl TypeError)
        else Inl TypeError)"

definition ByteBuffer_get :: "'a process \<Rightarrow> wrapper \<Rightarrow> nat \<Rightarrow> error + int" where
  "ByteBuffer_get s bb i =
     (case bb of Wrapper h _ \<Rightarrow>
        if h < length (objects s) then
          (case objects s ! h of
             ByteBuffer lim bytes \<Rightarrow>
               if i < lim \<and> i < length bytes then Inr (sint (bytes ! i))
               else Inl IndexOutOfBoundsException
           | _ \<Rightarrow> Inl TypeError)
        else Inl TypeError)"

text \<open>
  A string built by \<^verbatim>\<open>String.fromCharCode\<close> is kept as its UTF-16 code units:
  \<^verbatim>\<open>String.fromCharCode(n)\<close> is the one code unit \<open>n\<close> modulo \<open>2 ^ 16\<close>.
\<close>

definition String_fromCharCode :: "int \<Rightarrow> utf16" where
  "String_fromCharCode n = [word_of_int n]"

function readByteBuffer_loop ::
  "'a process \<Rightarrow> wrapper \<Rightarrow> nat \<Rightarrow> nat \<Rightarrow> utf16 \<Rightarrow> error + utf16" where
  "readByteBuffer_loop s bb limit i data =
     (if i < limit then
        (case ByteBuffer_get s bb i of
           Inl e \<Rightarrow> Inl e
         | Inr b \<Rightarrow> readByteBuffer_loop s bb limit (i + 1) (data @ String_fromCharCode b))
      else Inr data)"
  by pat_completeness auto
termination
  by (relation "measure (\<lambda>(s, bb, limit, i, data). limit - i)") auto

declare readByteBuffer_loop.simps [simp del]

definition readByteBuffer :: "'a process \<Rightarrow> nat \<Rightarrow> error + utf16" where
  "readByteBuffer s address =
     (case Java_cast s address (Java_use ''java.nio.ByteBuffer'') of
        Inl e \<Rightarrow> Inl e
      | Inr bb \<Rightarrow>
          (case ByteBuffer_limit s bb of
             Inl e \<Rightarrow> Inl e
           | Inr limit \<Rightarrow> readByteBuffer_loop s bb limit 0 []))"

section \<open>Class lookup\<close>

text \<open>
  \<^verbatim>\<open>Java.enumerateClassLoadersSync()\<close> gives the class loaders as an array; \<^verbatim>\<open>for ... in\<close>
  visits its indices in ascending order. \<^verbatim>\<open>findClass\<close> on a loader throws for a name the
  loader does not resolve. \<^verbatim>\<open>Java.ClassFactory.get(loader)\<close> is the class factory of the
  loader, made on the first request, and \<^verbatim>\<open>factory.use(name)\<close> the class of that name as
  loaded through it; after a \<^verbatim>\<open>findClass\<close> that succeeded neither throws.
\<close>

definition Java_enumerateClassLoadersSync :: "'a process \<Rightarrow> loader list" where
  "Java_enumerateClassLoadersSync s = classLoaders s"

definition findClass :: "loader \<Rightarrow> string \<Rightarrow> 'a process \<Rightarrow> 'a process \<times> (error + unit)" where
  "findClass l className s =
     (emit (FindClass (loader_id l) className) s,
      if resolves l className then Inr () else Inl ClassNotFoundException)"

datatype classFactory = ClassFactory nat

datatype jclass = JClass nat string

definition ClassFactory_get :: "loader \<Rightarrow> classFactory" where
  "ClassFactory_get l = ClassFactory (loader_id l)"

definition ClassFactory_use :: "classFactory \<Rightarrow> string \<Rightarrow> jclass" where
  "ClassFactory_use f className = (case f of ClassFactory n \<Rightarrow> JClass n className)"

text \<open>
  The loop of \<open>getJavaClass\<close> over the remaining loaders; \<open>classFactory\<close> is \<open>None\<close> while
  the variable is still \<^verbatim>\<open>undefined\<close>.
\<close>

fun getJavaClass_loop ::
  "loader list \<Rightarrow> string \<Rightarrow> classFactory option \<Rightarrow> 'a process \<Rightarrow> 'a process \<times> classFactory option" where
  "getJavaClass_loop [] className classFactory s = (s, classFactory)"
| "getJavaClass_loop (classLoader # rest) className classFactory s =
     (case findClass classLoader className s of
        (s', Inr _) \<Rightarrow> (s', Some (ClassFactory_get classLoader))
      | (s', Inl e) \<Rightarrow> getJavaClass_loop rest className classFactory s')"

definition getJavaClass :: "string \<Rightarrow> 'a process \<Rightarrow> 'a process \<times> (error + jclass)" where
  "getJavaClass className s =
     (case getJavaClass_loop (Java_enumerateClassLoadersSync s) className None s of
        (s', None) \<Rightarrow> (s', Inl TypeError)
      | (s', Some classFactory) \<Rightarrow> (s', Inr (ClassFactory_use classFactory className)))"

section \<open>Process metadata\<close>


definition is_64_bit :: "'a::len process \<Rightarrow> bool" where
  "is_64_bit s = (pointerSize s = 8)"




section \<open>HTTP fetch\<close>

text \<open>
  The field \<open>network\<close> gives, for a URL, the response as its lines, or the exception of the
  fetch. \<^verbatim>\<open>new URL(url)\<close> throws for a malformed URL; \<^verbatim>\<open>openConnection()\<close> opens the
  connection; \<^verbatim>\<open>getInputStream()\<close> gives the response or throws any other exception. A
  \<^verbatim>\<open>BufferedReader\<close> is the response and the number of lines read so far.
\<close>

record reader =
  stream :: "nat \<Rightarrow> line"
  position :: nat

definition URL_new :: "'a process \<Rightarrow> string \<Rightarrow> error + string" where
  "URL_new s url =
     (case network s url of Inl MalformedURLException \<Rightarrow> Inl MalformedURLException | _ \<Rightarrow> Inr url)"

definition openConnection :: "string \<Rightarrow> 'a process \<Rightarrow> 'a process \<times> string" where
  "openConnection url_obj s = (emit (OpenConnection url_obj) s, url_obj)"

definition getInputStream :: "'a process \<Rightarrow> string \<Rightarrow> error + (nat \<Rightarrow> line)" where
  "getInputStream s urlConnection = network s urlConnection"

definition InputStreamReader_new :: "(nat \<Rightarrow> line) \<Rightarrow> (nat \<Rightarrow> line)" where
  "InputStreamReader_new inputStream = inputStream"

definition BufferedReader_new :: "(nat \<Rightarrow> line) \<Rightarrow> reader" where
  "BufferedReader_new inputStreamReader = \<lparr>stream = inputStreamReader, position = 0\<rparr>"

text \<open>A \<^verbatim>\<open>StringBuilder\<close> is the text appended so far.\<close>

definition StringBuilder_new :: string where
  "StringBuilder_new = []"

definition StringBuilder_append :: "string \<Rightarrow> string \<Rightarrow> string" where
  "StringBuilder_append stringBuilder inputLine = stringBuilder @ inputLine"

definition StringBuilder_toString :: "string \<Rightarrow> string" where
  "StringBuilder_toString stringBuilder = stringBuilder"

definition readLine :: "reader \<Rightarrow> 'a process \<Rightarrow> ('a process \<times> reader) \<times> (error + string option)" where
  "readLine r s =
     (case stream r (position r) of
        Line l \<Rightarrow> ((emit ReadLine s, r\<lparr>position := position r + 1\<rparr>), Inr (Some l))
      | EndOfStream \<Rightarrow> ((emit ReadLine s, r), Inr None)
      | ReadFails \<Rightarrow> ((emit ReadLine s, r), Inl IOException))"

definition close_reader :: "reader \<Rightarrow> 'a process \<Rightarrow> 'a process" where
  "close_reader r s = emit CloseReader s"

text \<open>
  The \<^verbatim>\<open>while\<close> loop of \<open>download_file\<close>. It ends when \<^verbatim>\<open>readLine\<close> gives
  \<^verbatim>\<open>null\<close> or throws; on a response that never ends it does not return, which is the
  value \<open>None\<close>.
\<close>

partial_function (option) download_file_loop ::
  "reader \<Rightarrow> string \<Rightarrow> 'a process \<Rightarrow> (('a process \<times> reader) \<times> (error + string)) option" where
  "download_file_loop bufferedReader stringBuilder s =
     (case readLine bufferedReader s of
        ((s', r'), Inl e) \<Rightarrow> Some ((s', r'), Inl e)
      | ((s', r'), Inr None) \<Rightarrow> Some ((s', r'), Inr stringBuilder)
      | ((s', r'), Inr (Some inputLine)) \<Rightarrow>
          download_file_loop r' (StringBuilder_append stringBuilder inputLine) s')"

declare download_file_loop.simps [code]

definition download_file :: "string \<Rightarrow> 'a process \<Rightarrow> ('a process \<times> (error + string)) option" where
  "download_file url s =
     (case URL_new s url of
        Inl e \<Rightarrow> Some (s, Inl e)
      | Inr url_obj \<Rightarrow>
          (case openConnection url_obj s of (s1, urlConnection) \<Rightarrow>
             (case getInputStream s1 urlConnection of
                Inl e \<Rightarrow> Some (s1, Inl e)
              | Inr inputStream \<Rightarrow>
                  (let inputStreamReader = InputStreamReader_new inputStream;
                       bufferedReader = BufferedReader_new inputStreamReader;
                       stringBuilder = StringBuilder_new
                   in (case download_file_loop bufferedReader stringBuilder s1 of
                         None \<Rightarrow> None
                       | Some ((s2, r), Inl e) \<Rightarrow> Some (s2, Inl e)
                       | Some ((s2, r), Inr stringBuilder) \<Rightarrow>
                           Some (close_reader r s2, Inr (StringBuilder_toString stringBuilder)))))))"

section \<open>The exported entry point\<close>



section \<open>Predicates of the statements\<close>


text \<open>
  The memory holds the NUL-terminated string \<open>bs\<close> at \<open>p\<close>: the bytes of \<open>bs\<close>, none of
  them NUL, and then a NUL byte.
\<close>

fun cstring_at :: "('a::len word \<Rightarrow> 8 word option) \<Rightarrow> 'a word \<Rightarrow> utf8 \<Rightarrow> bool" where
  "cstring_at m p [] = (m p = Some 0)"
| "cstring_at m p (b # bs) = (m p = Some b \<and> b \<noteq> 0 \<and> cstring_at m (p + 1) bs)"

text \<open>
  The content fits the representation that is at the address. A tiny string has its bytes
  inline, from \<open>address + 1\<close> to the end of the object of \<open>3 * pointerSize\<close> bytes: the
  bytes of the content and the terminator must fit there. A heap string has its bytes in a
  buffer elsewhere: the bytes written from the stored pointer, those of the content and the
  terminator, must not reach the bytes of the string object itself.
\<close>

definition fits :: "'a::len process \<Rightarrow> 'a word \<Rightarrow> utf16 \<Rightarrow> bool" where
  "fits s address content =
     (let n = length (utf8_encode (runtime s) content) in
      case readU8 s address of
        Inl e \<Rightarrow> False
      | Inr b \<Rightarrow>
          if b AND 1 = 0 then n + 1 \<le> 3 * pointerSize s - 1
          else (case readPointer s (ptr_add address (2 * pointerSize s)) of
                  Inl e \<Rightarrow> False
                | Inr p \<Rightarrow>
                    \<forall>k \<in> {0..n}. \<forall>j \<in> {0..<3 * pointerSize s}.
                      ptr_add p k \<noteq> ptr_add address j))"

text \<open>The object at a handle, if the handle is one of the heap.\<close>

definition object_at :: "'a process \<Rightarrow> nat \<Rightarrow> jobject option" where
  "object_at s h = (if h < length (objects s) then Some (objects s ! h) else None)"

section \<open>An example process\<close>

text \<open>
  A 64-bit process on which the theorems below are tried: a memory with a tiny string
  \<^verbatim>\<open>"hi"\<close> at \<open>0x1000\<close> and a heap string \<^verbatim>\<open>"hello"\<close> at \<open>0x2000\<close> whose buffer is at
  \<open>0x3000\<close>; a Java string and a byte buffer; three class loaders; one reachable URL.
  The script runs on QuickJS.
\<close>

definition region :: "'a::len word \<Rightarrow> 8 word list \<Rightarrow> ('a word \<Rightarrow> 8 word option) \<Rightarrow> 'a word \<Rightarrow> 8 word option" where
  "region base bytes rest p =
     (if unat (p - base) < length bytes then Some (bytes ! unat (p - base)) else rest p)"

definition example_memory :: "64 word \<Rightarrow> 8 word option" where
  "example_memory =
     region 0x1000 ([0x04, 0x68, 0x69] @ replicate 21 0)
    (region 0x2000 ([0x21, 0, 0, 0, 0, 0, 0, 0] @ [5, 0, 0, 0, 0, 0, 0, 0] @ [0x00, 0x30, 0, 0, 0, 0, 0, 0])
    (region 0x3000 ([0x68, 0x65, 0x6C, 0x6C, 0x6F] @ replicate 27 0)
    (\<lambda>p. None)))"

definition example_response :: "nat \<Rightarrow> line" where
  "example_response n = (if n = 0 then Line ''ab'' else if n = 1 then Line ''cd'' else EndOfStream)"

definition example_process :: "64 process" where
  "example_process =
     \<lparr>runtime = QuickJS,
      modules = (\<lambda>name. if name = ''libnative-lib.so'' then Some 0x7000 else None),
      memory = example_memory,
      arch = ''arm64'',
      objects = [JavaString ''cat'', ByteBuffer 3 [0x41, 0x7F, 0xFF, 0x00]],
      classLoaders =
        [\<lparr>loader_id = 0, resolves = (\<lambda>name. name = ''java.lang.Object'')\<rparr>,
         \<lparr>loader_id = 1, resolves = (\<lambda>name. name = ''com.example.Game'')\<rparr>,
         \<lparr>loader_id = 2, resolves = (\<lambda>name. name = ''com.example.Game'')\<rparr>],
      application = Some \<lparr>packageName = ''com.example.game'', versionCode = 42\<rparr>,
      network = (\<lambda>url. if url = ''http://example.com/a.txt'' then Inr example_response
                       else if url = ''example'' then Inl MalformedURLException
                       else Inl IOException),
      trace = []\<rparr>"

section \<open>Log-level dispatch\<close>

text \<open>
  C7. For every message, \<open>log\<close> calls the helper of the matching level for the levels
  "error", "warning", "info", "verbose" and "debug"; for every other level value, and when
  the level is omitted (\<open>JUndefined\<close>), it does exactly what \<open>logInfo\<close> does.
\<close>

theorem log_dispatch:
  "log message (JStr ''error'') s = logError message s
   \<and> log message (JStr ''warning'') s = logWarning message s
   \<and> log message (JStr ''info'') s = logInfo message s
   \<and> log message (JStr ''verbose'') s = logVerbose message s
   \<and> log message (JStr ''debug'') s = logDebug message s
   \<and> log message JUndefined s = logInfo message s
   \<and> (level \<notin> {JStr ''error'', JStr ''warning'', JStr ''info'', JStr ''verbose'', JStr ''debug''}
        \<longrightarrow> log message level s = logInfo message s)"
  by (simp add: log_def)

text \<open>
  On the example process: a numeric level is logged as \<open>logInfo\<close> does, the level "error"
  writes with \<^verbatim>\<open>Log.e\<close> and \<^verbatim>\<open>console.error\<close>, and an omitted level with \<^verbatim>\<open>Log.i\<close>
  and \<^verbatim>\<open>console.info\<close>.
\<close>

theorem log_dispatch_witness:
  "JNum 3 \<notin> {JStr ''error'', JStr ''warning'', JStr ''info'', JStr ''verbose'', JStr ''debug''}
   \<and> log [Lit ''x''] (JNum 3) example_process = logInfo [Lit ''x''] example_process
   \<and> trace (log [Lit ''x''] (JStr ''error'') example_process)
       = [AndroidLog Log_e ''tbcml'' [Lit ''x''], Console Console_error [Lit ''x'']]
   \<and> trace (log [Lit ''x''] JUndefined example_process)
       = [AndroidLog Log_i ''tbcml'' [Lit ''x''], Console Console_info [Lit ''x'']]"
  using log_dispatch [where level = "JNum 3" and message = "[Lit ''x'']" and s = example_process]
  by (simp add: logInfo_def logError_def Java_perform_def console_call_def Log_call_def emit_def
      example_process_def)

section \<open>The base address\<close>

text \<open>
  C3. \<open>getBaseAddress\<close> gives \<^verbatim>\<open>null\<close> exactly when the lookup of the module
  "libnative-lib.so" gives \<^verbatim>\<open>null\<close>, and otherwise the base address of the module plus
  4096. It throws nothing and changes nothing: it is a function of the process alone.
\<close>

theorem getBaseAddress_null_or_offset:
  "(getBaseAddress s = None \<longleftrightarrow> Module_findBaseAddress s ''libnative-lib.so'' = None)
   \<and> (\<forall>b. Module_findBaseAddress s ''libnative-lib.so'' = Some b
          \<longrightarrow> getBaseAddress s = Some (b + 4096))"
  by (auto simp: getBaseAddress_def ptr_add_def Let_def)

theorem getBaseAddress_null_or_offset_witness:
  "Module_findBaseAddress example_process ''libnative-lib.so'' = Some 0x7000
   \<and> getBaseAddress example_process = Some 0x8000
   \<and> getBaseAddress (example_process\<lparr>modules := (\<lambda>name. None)\<rparr>) = None"
  using getBaseAddress_null_or_offset [of example_process]
    getBaseAddress_null_or_offset [of "example_process\<lparr>modules := (\<lambda>name. None)\<rparr>"]
  by (simp add: Module_findBaseAddress_def example_process_def)

section \<open>Reading a native string\<close>

lemma and_1_bit0: "(b AND 1 = 0) = (\<not> bit b 0)" for b :: "8 word"
  by (simp add: and_one_eq bit_0 mod_2_eq_odd)

text \<open>
  C2. \<open>readStdString\<close> decodes by the discriminator: when the least-significant bit of the
  byte at the address is 0 it gives the string read at \<open>address + 1\<close>, otherwise the string
  read at the pointer stored at \<open>address + 2 * pointerSize\<close>. An address that cannot be read
  makes it throw.
\<close>

theorem readStdString_discriminator:
  "(\<forall>e. readU8 s address = Inl e \<longrightarrow> readStdString s address = Inl e)
   \<and> (\<forall>b. readU8 s address = Inr b \<and> \<not> bit b 0
          \<longrightarrow> readStdString s address = readUtf8String s (address + 1))
   \<and> (\<forall>b. readU8 s address = Inr b \<and> bit b 0
          \<longrightarrow> readStdString s address =
              (case readPointer s (address + of_nat (2 * pointerSize s)) of
                 Inl e \<Rightarrow> Inl e
               | Inr p \<Rightarrow> readUtf8String s p))"
  by (simp add: readStdString_def ptr_add_def and_1_bit0)

text \<open>A NUL-terminated string in memory is what \<open>readUtf8String\<close> gives.\<close>

lemma read_cstr_cstring_at:
  "cstring_at (byte_at s) p bs \<Longrightarrow> length bs < fuel \<Longrightarrow> read_cstr fuel s p = Inr bs"
proof (induction bs arbitrary: p fuel)
  case Nil
  then obtain n where "fuel = Suc n" by (cases fuel) auto
  with Nil show ?case by simp
next
  case (Cons b bs)
  then obtain n where "fuel = Suc n" by (cases fuel) auto
  with Cons show ?case by simp
qed

lemma cstring_at_not_null: "cstring_at (byte_at s) p bs \<Longrightarrow> p \<noteq> 0"
  by (cases bs) (auto simp: byte_at_def)

lemma readUtf8String_cstring_at:
  "cstring_at (byte_at s) p bs \<Longrightarrow> length bs < 2 ^ LENGTH('a) \<Longrightarrow>
   readUtf8String s p =
     (case utf8_decode bs of None \<Rightarrow> Inl DecodeError | Some str \<Rightarrow> Inr (Some str))"
  for s :: "'a::len process"
  by (simp add: readUtf8String_def read_cstr_cstring_at cstring_at_not_null)

lemma utf8_decode_example:
  "utf8_decode [0x68, 0x69] = Some [0x68, 0x69]"
  "utf8_decode [0x68, 0x65, 0x6C, 0x6C, 0x6F] = Some [0x68, 0x65, 0x6C, 0x6C, 0x6F]"
  "utf8_decode [0x61] = Some [0x61]"
  "utf8_decode [0xED, 0xA0, 0x80] = None"
  "utf8_decode [0xEF, 0xBF, 0xBD] = Some [0xFFFD]"
  by (simp_all add: utf8_decode_def code_units_def continuation_def is_surrogate_def)

lemma byte_at_example: "p \<noteq> 0 \<Longrightarrow> byte_at example_process p = example_memory p"
  by (simp add: byte_at_def example_process_def)

lemma byte_at_update: "byte_at (s\<lparr>memory := m\<rparr>) p = (if p = 0 then None else m p)"
  by (simp add: byte_at_def)

lemma memory_example: "memory example_process = example_memory"
  by (simp add: example_process_def)

lemma example_memory_at:
  "example_memory 0x1000 = Some 0x04" "example_memory 0x1001 = Some 0x68"
  "example_memory 0x1002 = Some 0x69" "example_memory 0x1003 = Some 0"
  "example_memory 0x3000 = Some 0x68" "example_memory 0x3001 = Some 0x65"
  "example_memory 0x3002 = Some 0x6C" "example_memory 0x3003 = Some 0x6C"
  by (simp_all add: example_memory_def region_def)

lemma example_mapped:
  "byte_at example_process 0x1000 = Some 0x04" "byte_at example_process 0x1001 = Some 0x68"
  "byte_at example_process 0x1002 = Some 0x69" "byte_at example_process 0x1003 = Some 0"
  "byte_at example_process 0x2000 = Some 0x21"
  "byte_at example_process 0x3000 = Some 0x68" "byte_at example_process 0x3001 = Some 0x65"
  "byte_at example_process 0x3002 = Some 0x6C" "byte_at example_process 0x3003 = Some 0x6C"
  "byte_at example_process 0x3004 = Some 0x6F" "byte_at example_process 0x3005 = Some 0"
  by (simp_all add: byte_at_example example_memory_def region_def)

lemma example_tiny: "cstring_at (byte_at example_process) 0x1001 [0x68, 0x69]"
  by (simp add: example_mapped)

lemma example_heap: "cstring_at (byte_at example_process) 0x3000 [0x68, 0x65, 0x6C, 0x6C, 0x6F]"
  by (simp add: example_mapped)

lemma pointerSize_example: "pointerSize example_process = 8"
  by (simp add: pointerSize_def)

lemma example_pointer: "readPointer example_process 0x2010 = Inr 0x3000"
proof -
  have e: "(8::nat) = Suc (Suc (Suc (Suc (Suc (Suc (Suc (Suc 0)))))))" by simp
  have "read_bytes example_process 0x2010 (Suc (Suc (Suc (Suc (Suc (Suc (Suc (Suc 0))))))))
        = Inr [0x00, 0x30, 0, 0, 0, 0, 0, 0]"
    by (simp add: byte_at_example example_memory_def region_def)
  then show ?thesis
    unfolding readPointer_def pointerSize_example e by simp
qed

lemma example_readU8:
  "readU8 example_process 0x1000 = Inr 0x04"
  "readU8 example_process 0x2000 = Inr 0x21"
  "readU8 example_process 0 = Inl AccessViolation"
  "readU8 example_process 0x5000 = Inl AccessViolation"
  by (simp_all add: readU8_def example_mapped)
    (simp_all add: byte_at_def example_process_def example_memory_def region_def)

text \<open>
  On the example process: the tiny string at \<open>0x1000\<close> reads as "hi", the heap string at
  \<open>0x2000\<close> as "hello", and the address \<open>0x5000\<close>, which is not mapped, throws.
\<close>

theorem readStdString_discriminator_witness:
  "readU8 example_process 0x1000 = Inr 0x04 \<and> \<not> bit (0x04 :: 8 word) 0
   \<and> readStdString example_process 0x1000 = Inr (Some [0x68, 0x69])
   \<and> readU8 example_process 0x2000 = Inr 0x21 \<and> bit (0x21 :: 8 word) 0
   \<and> readStdString example_process 0x2000 = Inr (Some [0x68, 0x65, 0x6C, 0x6C, 0x6F])
   \<and> readU8 example_process 0x5000 = Inl AccessViolation
   \<and> readStdString example_process 0x5000 = Inl AccessViolation"
proof -
  have b0: "\<not> bit (0x04 :: 8 word) 0" and b1: "bit (0x21 :: 8 word) 0"
    by (simp_all add: bit_0)
  show ?thesis
    using readStdString_discriminator [of example_process "0x1000"]
      readStdString_discriminator [of example_process "0x2000"]
      readStdString_discriminator [of example_process "0x5000"]
      readUtf8String_cstring_at [OF example_tiny] readUtf8String_cstring_at [OF example_heap]
    by (simp add: example_readU8 b0 b1 pointerSize_example example_pointer utf8_decode_example)
qed

section \<open>Looking a class up\<close>

lemma getJavaClass_loop_none:
  "\<forall>l \<in> set ls. \<not> resolves l className \<Longrightarrow>
   getJavaClass_loop ls className cf s
     = (s\<lparr>trace := trace s @ map (\<lambda>l. FindClass (loader_id l) className) ls\<rparr>, cf)"
proof (induction ls arbitrary: s)
  case Nil
  then show ?case by simp
next
  case (Cons l ls)
  then show ?case by (simp add: findClass_def emit_def)
qed

lemma getJavaClass_loop_first:
  "\<forall>l \<in> set before. \<not> resolves l className \<Longrightarrow> resolves first className \<Longrightarrow>
   getJavaClass_loop (before @ first # rest) className cf s
     = (s\<lparr>trace := trace s @ map (\<lambda>l. FindClass (loader_id l) className) (before @ [first])\<rparr>,
        Some (ClassFactory_get first))"
proof (induction before arbitrary: s)
  case Nil
  then show ?case by (simp add: findClass_def emit_def)
next
  case (Cons l ls)
  then show ?case by (simp add: findClass_def emit_def)
qed

text \<open>
  C4. When some enumerated class loader resolves the class name, \<open>getJavaClass\<close> goes
  through the loaders in the order of the enumeration, and gives the class of the factory
  of the first loader whose \<open>findClass\<close> succeeds. The loaders it asks are those before the
  first success and that one, in order, and no loader after it; nothing but the trace of
  these calls changes.
\<close>

theorem getJavaClass_first_loader:
  assumes "\<exists>l \<in> set (classLoaders s). resolves l className"
  shows "\<exists>before first rest.
           classLoaders s = before @ first # rest
           \<and> (\<forall>l \<in> set before. \<not> resolves l className)
           \<and> resolves first className
           \<and> getJavaClass className s
               = (s\<lparr>trace := trace s @ map (\<lambda>l. FindClass (loader_id l) className) (before @ [first])\<rparr>,
                  Inr (ClassFactory_use (ClassFactory_get first) className))"
proof -
  from assms obtain before first rest where
    split: "classLoaders s = before @ first # rest"
    and first: "resolves first className"
    and before: "\<forall>l \<in> set before. \<not> resolves l className"
    using split_list_first_prop [of "classLoaders s" "\<lambda>l. resolves l className"] by blast
  have "getJavaClass className s
        = (s\<lparr>trace := trace s @ map (\<lambda>l. FindClass (loader_id l) className) (before @ [first])\<rparr>,
           Inr (ClassFactory_use (ClassFactory_get first) className))"
    unfolding getJavaClass_def Java_enumerateClassLoadersSync_def split
    by (simp add: getJavaClass_loop_first [OF before first])
  with split first before show ?thesis by blast
qed

text \<open>
  On the example process the loaders 1 and 2 both resolve "com.example.Game": loader 0 and
  loader 1 are asked, loader 2 is not, and the class comes from the factory of loader 1.
\<close>

theorem getJavaClass_first_loader_witness:
  "(\<exists>l \<in> set (classLoaders example_process). resolves l ''com.example.Game'')
   \<and> (\<exists>before first rest.
         classLoaders example_process = before @ first # rest
         \<and> (\<forall>l \<in> set before. \<not> resolves l ''com.example.Game'')
         \<and> resolves first ''com.example.Game''
         \<and> getJavaClass ''com.example.Game'' example_process
             = (example_process\<lparr>trace := trace example_process
                  @ map (\<lambda>l. FindClass (loader_id l) ''com.example.Game'') (before @ [first])\<rparr>,
                Inr (ClassFactory_use (ClassFactory_get first) ''com.example.Game'')))
   \<and> getJavaClass ''com.example.Game'' example_process
       = (example_process\<lparr>trace := [FindClass 0 ''com.example.Game'', FindClass 1 ''com.example.Game'']\<rparr>,
          Inr (JClass 1 ''com.example.Game''))"
proof -
  have h: "\<exists>l \<in> set (classLoaders example_process). resolves l ''com.example.Game''"
    by (simp add: example_process_def)
  have c: "getJavaClass ''com.example.Game'' example_process
       = (example_process\<lparr>trace := [FindClass 0 ''com.example.Game'', FindClass 1 ''com.example.Game'']\<rparr>,
          Inr (JClass 1 ''com.example.Game''))"
    by (simp add: getJavaClass_def Java_enumerateClassLoadersSync_def findClass_def emit_def
        ClassFactory_use_def ClassFactory_get_def example_process_def)
  from h c getJavaClass_first_loader [OF h] show ?thesis by blast
qed

text \<open>
  C5. When no enumerated class loader resolves the class name, \<open>getJavaClass\<close> has asked
  every loader and then throws: \<open>classFactory\<close> is still \<^verbatim>\<open>undefined\<close> at
  \<^verbatim>\<open>classFactory.use(className)\<close>, a \<^verbatim>\<open>TypeError\<close> that nothing catches. No value is
  returned.
\<close>

theorem getJavaClass_unresolved:
  assumes "\<forall>l \<in> set (classLoaders s). \<not> resolves l className"
  shows "getJavaClass className s
           = (s\<lparr>trace := trace s @ map (\<lambda>l. FindClass (loader_id l) className) (classLoaders s)\<rparr>,
              Inl TypeError)"
  unfolding getJavaClass_def Java_enumerateClassLoadersSync_def
  by (simp add: getJavaClass_loop_none [OF assms])

theorem getJavaClass_unresolved_witness:
  "map (\<lambda>l. resolves l ''com.example.Missing'') (classLoaders example_process)
     = [False, False, False]
   \<and> getJavaClass ''com.example.Missing'' example_process
       = (example_process\<lparr>trace := [FindClass 0 ''com.example.Missing'',
            FindClass 1 ''com.example.Missing'', FindClass 2 ''com.example.Missing'']\<rparr>,
          Inl TypeError)"
proof -
  have h: "\<forall>l \<in> set (classLoaders example_process). \<not> resolves l ''com.example.Missing''"
    by (simp add: example_process_def)
  show ?thesis
    using h getJavaClass_unresolved [OF h] by (simp add: example_process_def)
qed

section \<open>The string encoding\<close>

text \<open>Decoding the bytes of a scalar value gives the scalar value back.\<close>

lemma horner3: "64 * a + b = q \<Longrightarrow> 64 * q + r = c \<Longrightarrow> 4096 * a + b * 64 + r = c"
  for a b q r c :: nat
  by auto

lemma utf8_one:
  assumes "scalar c"
  shows "utf8_code_points (cp_to_utf8 c @ rest) = map_option ((#) c) (utf8_code_points rest)"
proof -
  from assms have lt: "c < 0x110000" and ns: "\<not> is_surrogate c" by (simp_all add: scalar_def)
  from lt consider "c < 0x80" | "0x80 \<le> c" "c < 0x800" | "0x800 \<le> c" "c < 0x10000"
    | "0x10000 \<le> c" "c < 0x110000"
    by linarith
  then show ?thesis
  proof cases
    case 1
    then show ?thesis by (simp add: cp_to_utf8_def)
  next
    case 2
    from 2(1) have "128 div 64 \<le> c div 64" by (rule div_le_mono)
    then have lo: "2 \<le> c div 64" by simp
    from 2(2) have hi: "c div 64 < 32" by (intro less_mult_imp_div_less) simp
    from 2 lo hi show ?thesis
      by (simp add: cp_to_utf8_def continuation_def)
  next
    case 3
    from 3(2) have "c div 64 < 1024" by (intro less_mult_imp_div_less) simp
    then have hi: "c div 64 div 64 < 16" by (intro less_mult_imp_div_less) simp
    from 3 hi ns show ?thesis
      by (simp add: cp_to_utf8_def continuation_def)
  next
    case 4
    from 4(2) have "c div 64 < 17408" by (intro less_mult_imp_div_less) simp
    then have "c div 64 div 64 < 272" by (intro less_mult_imp_div_less) simp
    then have hi: "c div 64 div 64 div 64 < 8" by (intro less_mult_imp_div_less) simp
    have "64 * (c div 64 div 64) + c div 64 mod 64 = c div 64" by simp
    moreover have "64 * (c div 64) + c mod 64 = c" by simp
    ultimately have id: "4096 * (c div 64 div 64) + c div 64 mod 64 * 64 + c mod 64 = c"
      by (rule horner3)
    from 4 hi show ?thesis
      by (simp add: cp_to_utf8_def continuation_def id)
  qed
qed

lemma utf8_all:
  "\<forall>c \<in> set cs. scalar c \<Longrightarrow> utf8_code_points (concat (map cp_to_utf8 cs)) = Some cs"
  by (induction cs) (simp_all add: utf8_one)

lemma cp_to_utf8_bytes: "c < 0x110000 \<Longrightarrow> b \<in> set (cp_to_utf8 c) \<Longrightarrow> b < 256"
  by (auto simp: cp_to_utf8_def split: if_splits)

lemma cp_to_utf8_nonzero: "c \<noteq> 0 \<Longrightarrow> b \<in> set (cp_to_utf8 c) \<Longrightarrow> b \<noteq> 0"
  by (auto simp: cp_to_utf8_def split: if_splits)

lemma pair_units:
  assumes "is_high u" and "is_low v"
  shows "code_units (0x10000 + (u - 0xD800) * 1024 + (v - 0xDC00)) = [u, v]"
    and "scalar (0x10000 + (u - 0xD800) * 1024 + (v - 0xDC00))"
proof -
  define a where "a = u - 0xD800"
  define b where "b = v - 0xDC00"
  from assms(1) have u: "u = 0xD800 + a" and a: "a < 1024"
    unfolding a_def is_high_def by linarith+
  from assms(2) have v: "v = 0xDC00 + b" and b: "b < 1024"
    unfolding b_def is_low_def by linarith+
  from a b have "a * 1024 + b < 1024 * 1024" by linarith
  with a b show "code_units (0x10000 + (u - 0xD800) * 1024 + (v - 0xDC00)) = [u, v]"
    and "scalar (0x10000 + (u - 0xD800) * 1024 + (v - 0xDC00))"
    by (simp_all add: u v code_units_def scalar_def is_surrogate_def)
qed

lemma single_unit:
  assumes "\<not> is_surrogate u" and "u < 65536"
  shows "code_units u = [u]" and "scalar u"
  using assms by (simp_all add: code_units_def scalar_def)

lemma code_points_well_formed:
  "well_formed us \<Longrightarrow> \<forall>u \<in> set us. u < 65536 \<Longrightarrow>
   (\<forall>c \<in> set (code_points rt us). scalar c) \<and> concat (map code_units (code_points rt us)) = us"
proof (induction us rule: well_formed.induct)
  case 1
  then show ?case by simp
next
  case (2 u)
  then show ?case by (simp add: single_unit)
next
  case (3 u v us)
  show ?case
  proof (cases "is_high u")
    case True
    with "3.prems" have l: "is_low v" and w: "well_formed us" by simp_all
    from "3.prems" have "\<forall>u \<in> set us. u < 65536" by simp
    from "3.IH"(1) [OF True w this] True l show ?thesis
      by (simp add: pair_units)
  next
    case False
    with "3.prems" have ns: "\<not> is_surrogate u" and w: "well_formed (v # us)" by simp_all
    from "3.prems" have "\<forall>u \<in> set (v # us). u < 65536" and "u < 65536" by simp_all
    from "3.IH"(2) [OF False w this(1)] False ns this(2) show ?thesis
      by (simp add: single_unit)
  qed
qed

lemma code_points_nonzero:
  "well_formed us \<Longrightarrow> 0 \<notin> set us \<Longrightarrow> 0 \<notin> set (code_points rt us)"
proof (induction us rule: well_formed.induct)
  case 1
  then show ?case by simp
next
  case (2 u)
  then show ?case by simp
next
  case (3 u v us)
  then show ?case by (auto split: if_splits)
qed


lemma unat_of_nat_bytes:
  "\<forall>n \<in> set ns. n < 256 \<Longrightarrow> map unat (map of_nat ns :: 8 word list) = ns"
  by (induction ns) (simp_all add: unat_of_nat)

lemma encode_decode:
  assumes "well_formed (map unat str)"
  shows "utf8_decode (utf8_encode rt str) = Some str"
proof -
  let ?us = "map unat str"
  let ?cs = "code_points rt ?us"
  have u: "\<forall>u \<in> set ?us. u < 65536"
  proof
    fix u assume "u \<in> set ?us"
    then obtain w :: "16 word" where "u = unat w" by auto
    then show "u < 65536" using unsigned_less [of w] by simp
  qed
  from code_points_well_formed [OF assms u] have sc: "\<forall>c \<in> set ?cs. scalar c"
    and units: "concat (map code_units ?cs) = ?us" by simp_all
  from sc have "\<forall>n \<in> set (concat (map cp_to_utf8 ?cs)). n < 256"
    by (auto simp: scalar_def dest: cp_to_utf8_bytes)
  then have "map unat (utf8_encode rt str) = concat (map cp_to_utf8 ?cs)"
    unfolding utf8_encode_def by (rule unat_of_nat_bytes)
  with utf8_all [OF sc] units show ?thesis
    by (simp add: utf8_decode_def comp_def)
qed

lemma encode_no_nul:
  assumes "well_formed (map unat str)" and "0 \<notin> set str"
  shows "0 \<notin> set (utf8_encode rt str)"
proof
  let ?us = "map unat str"
  let ?cs = "code_points rt ?us"
  assume "0 \<in> set (utf8_encode rt str)"
  then have "\<exists>n \<in> set (concat (map cp_to_utf8 ?cs)). (of_nat n :: 8 word) = 0"
    unfolding utf8_encode_def by (metis (no_types, lifting) imageE list.set_map)
  then obtain n where n: "n \<in> set (concat (map cp_to_utf8 ?cs))" and z: "(of_nat n :: 8 word) = 0"
    by blast
  from n obtain c where c: "c \<in> set ?cs" and nc: "n \<in> set (cp_to_utf8 c)" by auto
  have u: "\<forall>u \<in> set ?us. u < 65536"
  proof
    fix u assume "u \<in> set ?us"
    then obtain w :: "16 word" where "u = unat w" by auto
    then show "u < 65536" using unsigned_less [of w] by simp
  qed
  from assms(2) have "0 \<notin> set ?us" by (auto simp: unat_eq_0)
  from code_points_nonzero [OF assms(1) this] c have "c \<noteq> 0" by metis
  from cp_to_utf8_nonzero [OF this nc] have n0: "n \<noteq> 0" .
  from code_points_well_formed [OF assms(1) u] c have "scalar c" by simp
  then have "c < 0x110000" by (simp add: scalar_def)
  from cp_to_utf8_bytes [OF this nc] have "n < 256" .
  with n0 have "(of_nat n :: 8 word) \<noteq> 0" by (intro of_nat_neq_0) simp_all
  with z show False by simp
qed

section \<open>Writing a native string and reading it back\<close>

text \<open>Writing bytes leaves every other address as it was.\<close>

lemma ptr_step: "p + of_nat (Suc i) = (p + 1) + (of_nat i :: 'a::len word)"
  by (simp add: algebra_simps)

lemma write_bytes_other:
  "\<forall>i<length bs. q \<noteq> p + of_nat i \<Longrightarrow> byte_at (fst (write_bytes s p bs)) q = byte_at s q"
proof (induction bs arbitrary: s p)
  case Nil
  then show ?case by simp
next
  case (Cons b bs)
  show ?case
  proof (cases "byte_at s p")
    case None
    then show ?thesis by simp
  next
    case (Some old)
    let ?s1 = "s\<lparr>memory := (memory s)(p \<mapsto> b)\<rparr>"
    from Cons.prems have "q \<noteq> p + of_nat 0" by fastforce
    then have qp: "q \<noteq> p" by simp
    have "\<forall>i<length bs. q \<noteq> (p + 1) + of_nat i"
    proof (intro allI impI)
      fix i assume "i < length bs"
      then have "Suc i < length (b # bs)" by simp
      with Cons.prems have "q \<noteq> p + of_nat (Suc i)" by blast
      then show "q \<noteq> (p + 1) + of_nat i" unfolding ptr_step .
    qed
    from Cons.IH [OF this, of ?s1] Some qp show ?thesis by (simp add: byte_at_def)
  qed
qed

lemma write_bytes_cstring:
  "snd (write_bytes s p (bs @ [0])) = Inr () \<Longrightarrow> 0 \<notin> set bs \<Longrightarrow> length bs < 2 ^ LENGTH('a) \<Longrightarrow>
   cstring_at (byte_at (fst (write_bytes s p (bs @ [0])))) p bs"
  for s :: "'a::len process"
proof (induction bs arbitrary: s p)
  case Nil
  then show ?case by (cases "byte_at s p") (auto simp: byte_at_def split: if_splits)
next
  case (Cons b bs)
  show ?case
  proof (cases "byte_at s p")
    case None
    with Cons.prems(1) show ?thesis by simp
  next
    case (Some old)
    let ?s1 = "s\<lparr>memory := (memory s)(p \<mapsto> b)\<rparr>"
    let ?s' = "fst (write_bytes ?s1 (p + 1) (bs @ [0]))"
    from Some have w: "write_bytes s p ((b # bs) @ [0]) = write_bytes ?s1 (p + 1) (bs @ [0])"
      by simp
    from Cons.prems w have tl: "cstring_at (byte_at ?s') (p + 1) bs"
      by (intro Cons.IH) simp_all
    have "\<forall>i<length (bs @ [0]). p \<noteq> (p + 1) + of_nat i"
    proof (intro allI impI)
      fix i assume "i < length (bs @ [0])"
      with Cons.prems(3) have "0 < Suc i" "Suc i < 2 ^ LENGTH('a)" by simp_all
      then have "(of_nat (Suc i) :: 'a word) \<noteq> 0" by (rule of_nat_neq_0)
      then have "p + of_nat (Suc i) \<noteq> p" by (simp del: of_nat_Suc)
      then show "p \<noteq> (p + 1) + of_nat i" unfolding ptr_step by metis
    qed
    then have "byte_at ?s' p = byte_at ?s1 p" by (rule write_bytes_other)
    with Some have hd: "byte_at ?s' p = Some b" by (auto simp: byte_at_def split: if_splits)
    from Cons.prems(2) have "b \<noteq> 0" by auto
    with hd tl w show ?thesis by simp
  qed
qed

lemma read_bytes_same:
  "\<forall>i<n. byte_at s' (q + of_nat i) = byte_at s (q + of_nat i) \<Longrightarrow> read_bytes s' q n = read_bytes s q n"
proof (induction n arbitrary: q)
  case 0
  then show ?case by simp
next
  case (Suc n)
  from Suc.prems have "byte_at s' (q + of_nat 0) = byte_at s (q + of_nat 0)" by blast
  then have h: "byte_at s' q = byte_at s q" by simp
  have "\<forall>i<n. byte_at s' ((q + 1) + of_nat i) = byte_at s ((q + 1) + of_nat i)"
  proof (intro allI impI)
    fix i assume "i < n"
    then have "Suc i < Suc n" by simp
    with Suc.prems have "byte_at s' (q + of_nat (Suc i)) = byte_at s (q + of_nat (Suc i))" by blast
    then show "byte_at s' ((q + 1) + of_nat i) = byte_at s ((q + 1) + of_nat i)"
      unfolding ptr_step .
  qed
  from Suc.IH [OF this] h show ?case by (simp split: option.splits)
qed


lemma inline_bound: "3 * (LENGTH('a::len) div 8) - 1 < 2 ^ LENGTH('a)"
proof -
  have "3 * (LENGTH('a) div 8) - 1 \<le> LENGTH('a)" by simp
  also have "\<dots> < 2 ^ LENGTH('a)" by (rule less_exp)
  finally show ?thesis .
qed

text \<open>
  C9 (as amended). Let the content be well formed (no surrogate alone), have no NUL
  character, and fit the representation at the address (\<open>fits\<close>), in a process whose
  pointers have at least one byte. When \<open>writeStdString address content\<close> has returned,
  \<open>readStdString\<close> at the address gives the content: the write goes through the location
  the read uses for the same discriminator, and the byte at the address, which holds the
  discriminator, is unchanged.
\<close>

theorem writeStdString_then_readStdString:
  fixes s :: "'a::len process"
  assumes fit: "fits s address content"
    and wf: "well_formed (map unat content)"
    and nul: "0 \<notin> set content"
    and ps: "0 < pointerSize s"
    and wr: "writeStdString address content s = (s', Inr ())"
  shows "readStdString s' address = Inr (Some content) \<and> readU8 s' address = readU8 s address"
proof -
  define bytes where "bytes = utf8_encode (runtime s) content"
  from fit obtain b where b: "readU8 s address = Inr b"
    by (cases "readU8 s address") (simp_all add: fits_def)
  have psz: "pointerSize s' = pointerSize s" by (simp add: pointerSize_def)
  from wf nul have nb: "0 \<notin> set bytes"
    unfolding bytes_def by (rule encode_no_nul)
  from wf have dec: "utf8_decode bytes = Some content"
    unfolding bytes_def by (rule encode_decode)
  from nb have tw: "takeWhile (\<lambda>b. b \<noteq> 0) bytes = bytes"
    by simp metis
  show ?thesis
  proof (cases "b AND 1 = 0")
    case True
    with fit b have len: "length bytes + 1 \<le> 3 * pointerSize s - 1"
      by (simp add: fits_def bytes_def)
    with inline_bound [where 'a = 'a] have small: "length bytes + 1 < 2 ^ LENGTH('a)"
      by (simp add: pointerSize_def)
    from wr b True have "write_bytes s (address + 1) (bytes @ [0]) = (s', Inr ())"
      by (simp add: writeStdString_def writeUtf8String_def ptr_add_def tw [unfolded bytes_def])
        (simp add: bytes_def)
    then have s': "s' = fst (write_bytes s (address + 1) (bytes @ [0]))"
      and ok: "snd (write_bytes s (address + 1) (bytes @ [0])) = Inr ()"
      by simp_all
    from small have c: "cstring_at (byte_at s') (address + 1) bytes"
      unfolding s' by (intro write_bytes_cstring ok nb) simp
    have "\<forall>i<length (bytes @ [0]). address \<noteq> (address + 1) + of_nat i"
    proof (intro allI impI)
      fix i assume "i < length (bytes @ [0])"
      with small have "0 < Suc i" "Suc i < 2 ^ LENGTH('a)" by simp_all
      then have "(of_nat (Suc i) :: 'a word) \<noteq> 0" by (rule of_nat_neq_0)
      then have "address + of_nat (Suc i) \<noteq> address" by (simp del: of_nat_Suc)
      then show "address \<noteq> (address + 1) + of_nat i" unfolding ptr_step by metis
    qed
    then have "byte_at s' address = byte_at s address"
      unfolding s' by (rule write_bytes_other)
    then have u: "readU8 s' address = readU8 s address" by (simp add: readU8_def)
    from small have "readUtf8String s' (address + 1) = Inr (Some content)"
      by (simp add: readUtf8String_cstring_at [OF c] dec)
    with u b True show ?thesis by (simp add: readStdString_def ptr_add_def)
  next
    case False
    let ?slot = "ptr_add address (2 * pointerSize s)"
    from fit b False obtain p where p: "readPointer s ?slot = Inr p"
      and dis: "\<forall>k \<in> {0..length bytes}. \<forall>j \<in> {0..<3 * pointerSize s}.
                  ptr_add p k \<noteq> ptr_add address j"
      by (cases "readPointer s ?slot") (simp_all add: fits_def bytes_def)
    have small: "length bytes < 2 ^ LENGTH('a)"
    proof (rule ccontr)
      assume "\<not> length bytes < 2 ^ LENGTH('a)"
      moreover have "unat (address - p) < 2 ^ LENGTH('a)" by (rule unsigned_less)
      ultimately have "unat (address - p) \<le> length bytes" by linarith
      then have "unat (address - p) \<in> {0..length bytes}" by simp
      moreover from ps have "0 \<in> {0..<3 * pointerSize s}" by simp
      ultimately have "ptr_add p (unat (address - p)) \<noteq> ptr_add address 0"
        using dis by blast
      then show False by (simp add: ptr_add_def)
    qed
    from wr b False p have "write_bytes s p (bytes @ [0]) = (s', Inr ())"
      by (simp add: writeStdString_def writeUtf8String_def tw [unfolded bytes_def])
        (simp add: bytes_def)
    then have s': "s' = fst (write_bytes s p (bytes @ [0]))"
      and ok: "snd (write_bytes s p (bytes @ [0])) = Inr ()"
      by simp_all
    from small have c: "cstring_at (byte_at s') p bytes"
      unfolding s' by (intro write_bytes_cstring ok nb)
    have same: "byte_at s' (address + of_nat j) = byte_at s (address + of_nat j)"
      if "j < 3 * pointerSize s" for j
    proof -
      have "\<forall>i<length (bytes @ [0]). address + of_nat j \<noteq> p + of_nat i"
      proof (intro allI impI)
        fix i assume "i < length (bytes @ [0])"
        then have "i \<in> {0..length bytes}" by simp
        moreover from that have "j \<in> {0..<3 * pointerSize s}" by simp
        ultimately have "ptr_add p i \<noteq> ptr_add address j" using dis by blast
        then show "address + of_nat j \<noteq> p + of_nat i" by (simp add: ptr_add_def)
      qed
      then show ?thesis unfolding s' by (rule write_bytes_other)
    qed
    from same [of 0] ps have "byte_at s' address = byte_at s address" by simp
    then have u: "readU8 s' address = readU8 s address" by (simp add: readU8_def)
    have "\<forall>i<pointerSize s. byte_at s' (?slot + of_nat i) = byte_at s (?slot + of_nat i)"
    proof (intro allI impI)
      fix i assume "i < pointerSize s"
      then have "2 * pointerSize s + i < 3 * pointerSize s" by simp
      from same [OF this] show "byte_at s' (?slot + of_nat i) = byte_at s (?slot + of_nat i)"
        by (simp add: ptr_add_def algebra_simps)
    qed
    then have "read_bytes s' ?slot (pointerSize s) = read_bytes s ?slot (pointerSize s)"
      by (rule read_bytes_same)
    with p have p': "readPointer s' ?slot = Inr p"
      by (simp add: readPointer_def psz)
    from small have "readUtf8String s' p = Inr (Some content)"
      by (simp add: readUtf8String_cstring_at [OF c] dec)
    with u b False p' show ?thesis by (simp add: readStdString_def psz)
  qed
qed

lemma runtime_example: "runtime example_process = QuickJS"
  by (simp add: example_process_def)

lemma utf8_encode_example:
  "utf8_encode rt [0x6F, 0x6B] = [0x6F, 0x6B]"
  "utf8_encode rt [0x732B] = [0xE7, 0x8C, 0xAB]"
  "utf8_encode rt [0x61, 0, 0x62] = [0x61, 0, 0x62]"
  "utf8_encode QuickJS [0xD800] = [0xED, 0xA0, 0x80]"
  "utf8_encode V8 [0xD800] = [0xEF, 0xBF, 0xBD]"
  by (simp_all add: utf8_encode_def cp_to_utf8_def is_surrogate_def is_high_def lone_def)

lemma example_write_ok:
  "writeStdString 0x1000 [0x6F, 0x6B] example_process
     = (example_process\<lparr>memory := (memory example_process)
          (0x1001 \<mapsto> 0x6F, 0x1002 \<mapsto> 0x6B, 0x1003 \<mapsto> 0)\<rparr>, Inr ())"
  by (simp add: writeStdString_def writeUtf8String_def ptr_add_def example_readU8
      example_mapped byte_at_update memory_example example_memory_at utf8_encode_example)

lemma example_heap_apart:
  "ptr_add (0x3000 :: 64 word) k \<noteq> ptr_add 0x2000 j" if "k \<le> 3" "j < 24"
proof
  assume "ptr_add (0x3000 :: 64 word) k = ptr_add 0x2000 j"
  then have "(of_nat (0x3000 + k) :: 64 word) = of_nat (0x2000 + j)"
    by (simp add: ptr_add_def)
  then have "(word_of_nat (0x3000 + k) :: 64 word) = word_of_nat (0x2000 + j)" .
  then have "take_bit 64 (0x3000 + k) = take_bit 64 (0x2000 + j)"
    by (simp add: word_of_nat_eq_iff del: of_nat_add of_nat_numeral)
  with that show False by (simp add: take_bit_nat_eq_self)
qed

lemma example_heap_fits: "fits example_process 0x2000 [0x732B]"
proof -
  have d: "\<forall>k \<in> {0..3}. \<forall>j \<in> {0..<24}. ptr_add (0x3000 :: 64 word) k \<noteq> ptr_add 0x2000 j"
  proof (intro ballI)
    fix k j :: nat
    assume "k \<in> {0..3}" and "j \<in> {0..<24}"
    then have "k \<le> 3" and "j < 24" by simp_all
    then show "ptr_add (0x3000 :: 64 word) k \<noteq> ptr_add 0x2000 j" by (rule example_heap_apart)
  qed
  have n: "length (utf8_encode (runtime example_process) [0x732B]) = 3"
    by (simp add: utf8_encode_example)
  have o: "3 * pointerSize example_process = 24"
    and q: "ptr_add (0x2000 :: 64 word) (2 * pointerSize example_process) = 0x2010"
    by (simp_all add: pointerSize_example ptr_add_def)
  have h: "(0x21 :: 8 word) AND 1 \<noteq> 0" by simp
  show ?thesis
    unfolding fits_def n o q Let_def using d h
    by (simp only: example_readU8 example_pointer sum.case if_False)
qed

lemma example_heap_write_ok:
  "writeStdString 0x2000 [0x732B] example_process
     = (example_process\<lparr>memory := (memory example_process)
          (0x3000 \<mapsto> 0xE7, 0x3001 \<mapsto> 0x8C, 0x3002 \<mapsto> 0xAB, 0x3003 \<mapsto> 0)\<rparr>, Inr ())"
  by (simp add: writeStdString_def writeUtf8String_def ptr_add_def example_readU8
      example_mapped pointerSize_example example_pointer byte_at_update memory_example
      example_memory_at utf8_encode_example)

text \<open>
  On the example process: "ok" written over the tiny string "hi" at \<open>0x1000\<close>, and the
  one character U+732B, three bytes in memory, written over the heap string "hello" at
  \<open>0x2000\<close>, are read back.
\<close>

theorem writeStdString_then_readStdString_witness:
  "fits example_process 0x1000 [0x6F, 0x6B]
   \<and> fits example_process 0x2000 [0x732B]
   \<and> well_formed (map unat [0x6F, 0x6B :: 16 word])
   \<and> well_formed (map unat [0x732B :: 16 word])
   \<and> 0 \<notin> set [0x6F, 0x6B :: 16 word]
   \<and> 0 \<notin> set [0x732B :: 16 word]
   \<and> 0 < pointerSize example_process
   \<and> snd (writeStdString 0x1000 [0x6F, 0x6B] example_process) = Inr ()
   \<and> readStdString (fst (writeStdString 0x1000 [0x6F, 0x6B] example_process)) 0x1000
       = Inr (Some [0x6F, 0x6B])
   \<and> snd (writeStdString 0x2000 [0x732B] example_process) = Inr ()
   \<and> readStdString (fst (writeStdString 0x2000 [0x732B] example_process)) 0x2000
       = Inr (Some [0x732B])"
proof -
  have f: "fits example_process 0x1000 [0x6F, 0x6B]"
    by (simp add: fits_def example_readU8 pointerSize_example utf8_encode_example)
  have w1: "well_formed (map unat [0x6F, 0x6B :: 16 word])"
    and w2: "well_formed (map unat [0x732B :: 16 word])"
    by (simp_all add: is_surrogate_def is_high_def)
  have n1: "0 \<notin> set [0x6F, 0x6B :: 16 word]" and n2: "0 \<notin> set [0x732B :: 16 word]"
    by simp_all
  have p: "0 < pointerSize example_process" by (simp add: pointerSize_example)
  show ?thesis
    using f w1 w2 n1 n2 p example_heap_fits
      writeStdString_then_readStdString [OF f w1 n1 p example_write_ok]
      writeStdString_then_readStdString [OF example_heap_fits w2 n2 p example_heap_write_ok]
    by (simp add: example_write_ok example_heap_write_ok)
qed

text \<open>
  C9 as stated, for every content that fits, fails for a content with a NUL character
  inside: the string of \<open>a\<close>, NUL, \<open>b\<close> is well formed and fits the tiny string at
  \<open>0x1000\<close>, the write returns, and the string read back is \<open>a\<close> alone.
\<close>

theorem writeStdString_embedded_nul:
  "fits example_process 0x1000 [0x61, 0, 0x62]
   \<and> well_formed (map unat [0x61, 0, 0x62 :: 16 word])
   \<and> snd (writeStdString 0x1000 [0x61, 0, 0x62] example_process) = Inr ()
   \<and> readStdString (fst (writeStdString 0x1000 [0x61, 0, 0x62] example_process)) 0x1000
       = Inr (Some [0x61])
   \<and> readStdString (fst (writeStdString 0x1000 [0x61, 0, 0x62] example_process)) 0x1000
       \<noteq> Inr (Some [0x61, 0, 0x62])"
proof -
  let ?s' = "example_process\<lparr>memory := (memory example_process)(0x1001 \<mapsto> 0x61, 0x1002 \<mapsto> 0)\<rparr>"
  have f: "fits example_process 0x1000 [0x61, 0, 0x62]"
    by (simp add: fits_def example_readU8 pointerSize_example utf8_encode_example)
  have wf: "well_formed (map unat [0x61, 0, 0x62 :: 16 word])"
    by (simp add: is_surrogate_def is_high_def)
  have w: "writeStdString 0x1000 [0x61, 0, 0x62] example_process = (?s', Inr ())"
    by (simp add: writeStdString_def writeUtf8String_def ptr_add_def example_readU8
        example_mapped byte_at_update memory_example example_memory_at utf8_encode_example)
  have u: "readU8 ?s' 0x1000 = Inr 0x04"
    by (simp add: readU8_def byte_at_update memory_example example_memory_at)
  have cs: "cstring_at (byte_at ?s') 0x1001 [0x61]" by (simp add: byte_at_update)
  have "readUtf8String ?s' 0x1001 = Inr (Some [0x61])"
    using readUtf8String_cstring_at [OF cs] by (simp add: utf8_decode_example)
  then have r: "readStdString ?s' 0x1000 = Inr (Some [0x61])"
    by (simp add: readStdString_def u ptr_add_def)
  from f wf w r show ?thesis by simp
qed

text \<open>
  Nor is a string with a surrogate alone read back, though it has no NUL and fits. With
  the high surrogate \<open>0xD800\<close> written over the tiny string at \<open>0x1000\<close>, the read throws
  on QuickJS, whose three bytes for the surrogate are not UTF-8, and gives U+FFFD on V8.
\<close>

lemma writeStdString_lone_surrogate:
  "\<not> well_formed (map unat [0xD800 :: 16 word])
   \<and> 0 \<notin> set [0xD800 :: 16 word]
   \<and> fits example_process 0x1000 [0xD800]
   \<and> snd (writeStdString 0x1000 [0xD800] example_process) = Inr ()
   \<and> readStdString (fst (writeStdString 0x1000 [0xD800] example_process)) 0x1000
       = Inl DecodeError
   \<and> fits (example_process\<lparr>runtime := V8\<rparr>) 0x1000 [0xD800]
   \<and> snd (writeStdString 0x1000 [0xD800] (example_process\<lparr>runtime := V8\<rparr>)) = Inr ()
   \<and> readStdString (fst (writeStdString 0x1000 [0xD800] (example_process\<lparr>runtime := V8\<rparr>)))
         0x1000 = Inr (Some [0xFFFD])"
proof -
  let ?q = "example_process\<lparr>memory := (memory example_process)
              (0x1001 \<mapsto> 0xED, 0x1002 \<mapsto> 0xA0, 0x1003 \<mapsto> 0x80, 0x1004 \<mapsto> 0)\<rparr>"
  let ?e = "example_process\<lparr>runtime := V8\<rparr>"
  let ?v = "?e\<lparr>memory := (memory example_process)
              (0x1001 \<mapsto> 0xEF, 0x1002 \<mapsto> 0xBF, 0x1003 \<mapsto> 0xBD, 0x1004 \<mapsto> 0)\<rparr>"
  have m4: "example_memory 0x1004 = Some 0"
    by (simp add: example_memory_def region_def)
  have be: "byte_at ?e = byte_at example_process"
    by (rule ext) (simp add: byte_at_def)
  have ue: "readU8 ?e 0x1000 = Inr 0x04"
    by (simp add: readU8_def be example_mapped)
  have nw: "\<not> well_formed (map unat [0xD800 :: 16 word])"
    by (simp add: is_surrogate_def)
  have fq: "fits example_process 0x1000 [0xD800]"
    by (simp add: fits_def example_readU8 pointerSize_example utf8_encode_example runtime_example)
  have fv: "fits ?e 0x1000 [0xD800]"
    by (simp add: fits_def ue pointerSize_def utf8_encode_example)
  have wq: "writeStdString 0x1000 [0xD800] example_process = (?q, Inr ())"
    by (simp add: writeStdString_def writeUtf8String_def ptr_add_def example_readU8
        example_mapped byte_at_update memory_example example_memory_at m4 utf8_encode_example
        runtime_example)
  have wv: "writeStdString 0x1000 [0xD800] ?e = (?v, Inr ())"
    by (simp add: writeStdString_def writeUtf8String_def ptr_add_def ue be
        example_mapped byte_at_update memory_example example_memory_at m4 utf8_encode_example)
  have uq: "readU8 ?q 0x1000 = Inr 0x04"
    by (simp add: readU8_def byte_at_update memory_example example_memory_at)
  have uv: "readU8 ?v 0x1000 = Inr 0x04"
    by (simp add: readU8_def byte_at_update memory_example example_memory_at)
  have cq: "cstring_at (byte_at ?q) 0x1001 [0xED, 0xA0, 0x80]" by (simp add: byte_at_update)
  have "readUtf8String ?q 0x1001 = Inl DecodeError"
    using readUtf8String_cstring_at [OF cq] by (simp add: utf8_decode_example)
  then have rq: "readStdString ?q 0x1000 = Inl DecodeError"
    by (simp add: readStdString_def uq ptr_add_def)
  have cv: "cstring_at (byte_at ?v) 0x1001 [0xEF, 0xBF, 0xBD]" by (simp add: byte_at_update)
  have "readUtf8String ?v 0x1001 = Inr (Some [0xFFFD])"
    using readUtf8String_cstring_at [OF cv] by (simp add: utf8_decode_example)
  then have rv: "readStdString ?v 0x1000 = Inr (Some [0xFFFD])"
    by (simp add: readStdString_def uv ptr_add_def)
  from nw fq fv wq wv rq rv show ?thesis by simp
qed

section \<open>Java strings\<close>

text \<open>
  C10. \<open>writeJString\<close> does not modify the string at the address: it allocates a new
  Java string of the content and drops it (or throws, when the handle is not a string, and
  changes nothing). The object at the address, and what \<open>readJString\<close> gives for the
  address, are the same before and after, for every address and content.
\<close>

theorem writeJString_keeps_string:
  "(case writeJString address content s of
      (s', r) \<Rightarrow>
        readJString s' address = readJString s address
        \<and> object_at s' address = object_at s address
        \<and> ((r = Inl CastError \<and> s' = s)
            \<or> (r = Inr () \<and> s' = s\<lparr>objects := objects s @ [JavaString content]\<rparr>)))"
  by (auto simp: writeJString_def readJString_def Java_cast_def String_new_def object_at_def
      nth_append split: sum.splits)

text \<open>On the example process: writing "dog" at the handle of "cat" leaves "cat" there.\<close>

theorem writeJString_keeps_string_example:
  "writeJString 0 ''dog'' example_process
     = (example_process\<lparr>objects := [JavaString ''cat'', ByteBuffer 3 [0x41, 0x7F, 0xFF, 0x00],
          JavaString ''dog'']\<rparr>, Inr ())
   \<and> object_at (fst (writeJString 0 ''dog'' example_process)) 0 = Some (JavaString ''cat'')
   \<and> readJString (fst (writeJString 0 ''dog'' example_process)) 0
       = Inr (Wrapper 0 ''java.lang.String'')"
  using writeJString_keeps_string [where address = 0 and content = "''dog''" and s = example_process]
  by (simp add: writeJString_def readJString_def Java_cast_def Java_use_def String_new_def
      object_at_def example_process_def)

section \<open>Byte buffers\<close>

lemma readByteBuffer_loop_run:
  assumes "object_at s h = Some (ByteBuffer lim bytes)" and "lim \<le> length bytes"
  shows "i \<le> lim \<Longrightarrow>
         readByteBuffer_loop s (Wrapper h C) lim i data
           = Inr (data @ map (\<lambda>b. word_of_int (sint b)) (drop i (take lim bytes)))"
proof (induction "lim - i" arbitrary: i data)
  case 0
  then show ?case
    by (subst readByteBuffer_loop.simps) simp
next
  case (Suc n)
  then have i: "i < lim" by simp
  with assms have g: "ByteBuffer_get s (Wrapper h C) i = Inr (sint (bytes ! i))"
    by (auto simp: ByteBuffer_get_def object_at_def split: if_splits)
  from i assms have d: "drop i (take lim bytes) = bytes ! i # drop (Suc i) (take lim bytes)"
    by (simp add: Cons_nth_drop_Suc [symmetric])
  from Suc have "n = lim - (i + 1)" "i + 1 \<le> lim" by simp_all
  from Suc.hyps(1) [OF this]
  show ?case
    by (simp add: readByteBuffer_loop.simps [of s _ lim i] i g d String_fromCharCode_def)
qed

lemma readByteBuffer_result:
  assumes "object_at s address = Some (ByteBuffer lim bytes)" and "lim \<le> length bytes"
  shows "readByteBuffer s address = Inr (map (\<lambda>b. word_of_int (sint b)) (take lim bytes))"
proof -
  from assms have c: "Java_cast s address (Java_use ''java.nio.ByteBuffer'')
      = Inr (Wrapper address ''java.nio.ByteBuffer'')"
    by (auto simp: Java_cast_def Java_use_def object_at_def split: if_splits)
  from assms have l: "ByteBuffer_limit s (Wrapper address ''java.nio.ByteBuffer'') = Inr lim"
    by (auto simp: ByteBuffer_limit_def object_at_def split: if_splits)
  show ?thesis
    using readByteBuffer_loop_run [OF assms, of 0 "''java.nio.ByteBuffer''" "[]"]
    by (simp add: readByteBuffer_def c l)
qed

text \<open>
  C8 (as amended). For a byte buffer at the address whose limit is within its bytes,
  \<open>readByteBuffer\<close> gives a string whose length is the limit. Its character at every
  index below the limit has as code the byte at that index, a number from -128 to 127,
  taken modulo 65536: the byte itself when it is not negative.
\<close>

theorem readByteBuffer_char_codes:
  assumes "object_at s address = Some (ByteBuffer lim bytes)" and "lim \<le> length bytes"
  shows "\<exists>data. readByteBuffer s address = Inr data
           \<and> length data = lim
           \<and> (\<forall>i<lim. uint (data ! i) = sint (bytes ! i) mod 65536)
           \<and> (\<forall>i<lim. 0 \<le> sint (bytes ! i) \<longrightarrow> uint (data ! i) = sint (bytes ! i))"
proof -
  let ?data = "map (\<lambda>b. word_of_int (sint b) :: 16 word) (take lim bytes)"
  have len: "length ?data = lim" using assms by simp
  have code: "uint (?data ! i) = sint (bytes ! i) mod 65536" if "i < lim" for i
  proof -
    from that assms have "?data ! i = word_of_int (sint (bytes ! i))"
      by (simp del: of_int_sint)
    then have "uint (?data ! i) = sint (bytes ! i) mod 2 ^ LENGTH(16)"
      by (simp only: uint_word_of_int)
    then show ?thesis by simp
  qed
  have small: "uint (?data ! i) = sint (bytes ! i)" if "i < lim" "0 \<le> sint (bytes ! i)" for i
  proof -
    have "sint (bytes ! i) < 128"
      using sint_lt [of "bytes ! i"] by simp
    with that code [of i] show ?thesis by simp
  qed
  from readByteBuffer_result [OF assms] len code small show ?thesis by blast
qed

theorem readByteBuffer_char_codes_witness:
  "object_at example_process 1 = Some (ByteBuffer 3 [0x41, 0x7F, 0xFF, 0x00])
   \<and> (3 :: nat) \<le> length [0x41, 0x7F, 0xFF, 0x00 :: 8 word]
   \<and> (\<exists>data. readByteBuffer example_process 1 = Inr data \<and> length data = 3
          \<and> uint (data ! 0) = 65 \<and> uint (data ! 1) = 127 \<and> uint (data ! 2) = 65535)"
proof -
  have o: "object_at example_process 1 = Some (ByteBuffer 3 [0x41, 0x7F, 0xFF, 0x00])"
    by (simp add: object_at_def example_process_def)
  have l: "(3 :: nat) \<le> length [0x41, 0x7F, 0xFF, 0x00 :: 8 word]" by simp
  from readByteBuffer_char_codes [OF o l] obtain data where
    r: "readByteBuffer example_process 1 = Inr data" and n: "length data = 3"
    and c: "\<forall>i<3. uint (data ! i) = sint ([0x41, 0x7F, 0xFF, 0x00 :: 8 word] ! i) mod 65536"
    by blast
  from c have "uint (data ! 0) = 65" "uint (data ! 1) = 127" "uint (data ! 2) = 65535"
    by simp_all
  with o l r n show ?thesis by blast
qed

text \<open>
  C8 as stated, the character code is the byte, fails for a byte from \<open>0x80\<close> on: the
  byte \<open>0xFF\<close> at index 2 of the example buffer is -1 as a Java byte (255 read unsigned), and
  the character at index 2 has the code 65535.
\<close>

theorem readByteBuffer_negative_byte:
  "object_at example_process 1 = Some (ByteBuffer 3 [0x41, 0x7F, 0xFF, 0x00])
   \<and> readByteBuffer example_process 1 = Inr [0x41, 0x7F, 0xFFFF]
   \<and> uint ([0x41, 0x7F, 0xFFFF :: 16 word] ! 2) = 65535
   \<and> sint ([0x41, 0x7F, 0xFF, 0x00 :: 8 word] ! 2) = - 1
   \<and> uint ([0x41, 0x7F, 0xFF, 0x00 :: 8 word] ! 2) = 255"
proof -
  have o: "object_at example_process 1 = Some (ByteBuffer 3 [0x41, 0x7F, 0xFF, 0x00])"
    by (simp add: object_at_def example_process_def)
  have l: "(3 :: nat) \<le> length [0x41, 0x7F, 0xFF, 0x00 :: 8 word]" by simp
  have t: "take 3 [0x41, 0x7F, 0xFF, 0x00 :: 8 word] = [0x41, 0x7F, 0xFF]"
    by (simp add: take_Cons')
  have "readByteBuffer example_process 1 = Inr [0x41, 0x7F, 0xFFFF]"
    using readByteBuffer_result [OF o l] by (simp add: t)
  with o show ?thesis by simp
qed

section \<open>The HTTP fetch\<close>

lemma download_file_loop_lines:
  "(\<forall>i<length ls. stream r (position r + i) = Line (ls ! i)) \<Longrightarrow>
   stream r (position r + length ls) = EndOfStream \<Longrightarrow>
   download_file_loop r sb s
     = Some ((s\<lparr>trace := trace s @ replicate (Suc (length ls)) ReadLine\<rparr>,
              r\<lparr>position := position r + length ls\<rparr>), Inr (sb @ concat ls))"
proof (induction ls arbitrary: r sb s)
  case Nil
  then show ?case
    by (subst download_file_loop.simps) (simp add: readLine_def emit_def)
next
  case (Cons l ls)
  let ?r = "r\<lparr>position := position r + 1\<rparr>"
  from Cons.prems(1) have first: "stream r (position r) = Line l"
    by (metis length_greater_0_conv list.distinct(1) add.right_neutral nth_Cons_0)
  have rest: "\<forall>i<length ls. stream ?r (position ?r + i) = Line (ls ! i)"
  proof (intro allI impI)
    fix i assume "i < length ls"
    then have "Suc i < length (l # ls)" by simp
    with Cons.prems(1) have "stream r (position r + Suc i) = Line ((l # ls) ! Suc i)" by blast
    then show "stream ?r (position ?r + i) = Line (ls ! i)" by simp
  qed
  from Cons.prems(2) have eos: "stream ?r (position ?r + length ls) = EndOfStream" by simp
  have "download_file_loop r sb s = download_file_loop ?r (sb @ l) (emit ReadLine s)"
    by (subst download_file_loop.simps) (simp add: readLine_def first StringBuilder_append_def)
  also have "\<dots> = Some (((emit ReadLine s)\<lparr>trace := trace (emit ReadLine s)
                          @ replicate (Suc (length ls)) ReadLine\<rparr>,
                       ?r\<lparr>position := position ?r + length ls\<rparr>), Inr ((sb @ l) @ concat ls))"
    by (rule Cons.IH [OF rest eos])
  also have "\<dots> = Some ((s\<lparr>trace := trace s @ replicate (Suc (length (l # ls))) ReadLine\<rparr>,
                       r\<lparr>position := position r + length (l # ls)\<rparr>), Inr (sb @ concat (l # ls)))"
    by (simp add: emit_def)
  finally show ?case .
qed

text \<open>
  C6. For a URL whose connection gives a response of the lines \<open>ls\<close> and then the end of
  the stream, \<open>download_file\<close> returns: it opens one connection to the URL, calls
  \<open>readLine\<close> once for each line and once more for the \<^verbatim>\<open>null\<close> that ends the loop,
  closes the reader, and gives the lines appended one after the other.
\<close>

theorem download_file_concatenates:
  assumes "network s url = Inr response"
    and "\<forall>i<length ls. response i = Line (ls ! i)"
    and "response (length ls) = EndOfStream"
  shows "download_file url s
           = Some (s\<lparr>trace := trace s @ [OpenConnection url]
                      @ replicate (Suc (length ls)) ReadLine @ [CloseReader]\<rparr>,
                   Inr (concat ls))"
proof -
  let ?s1 = "emit (OpenConnection url) s"
  let ?r = "BufferedReader_new (InputStreamReader_new response)"
  have l: "download_file_loop ?r [] ?s1
     = Some ((?s1\<lparr>trace := trace ?s1 @ replicate (Suc (length ls)) ReadLine\<rparr>,
              ?r\<lparr>position := position ?r + length ls\<rparr>), Inr ([] @ concat ls))"
    using assms(2,3)
    by (intro download_file_loop_lines)
      (simp_all add: BufferedReader_new_def InputStreamReader_new_def)
  show ?thesis
    using assms(1)
    by (simp add: download_file_def URL_new_def openConnection_def getInputStream_def
        l [unfolded emit_def] close_reader_def emit_def StringBuilder_new_def
        StringBuilder_toString_def)
qed

theorem download_file_concatenates_witness:
  "network example_process ''http://example.com/a.txt'' = Inr example_response
   \<and> map example_response [0, 1] = [Line ''ab'', Line ''cd'']
   \<and> example_response 2 = EndOfStream
   \<and> download_file ''http://example.com/a.txt'' example_process
       = Some (example_process\<lparr>trace := [OpenConnection ''http://example.com/a.txt'',
                 ReadLine, ReadLine, ReadLine, CloseReader]\<rparr>, Inr ''abcd'')"
proof -
  have n: "network example_process ''http://example.com/a.txt'' = Inr example_response"
    by (simp add: example_process_def)
  have l: "\<forall>i<length [''ab'', ''cd'']. example_response i = Line ([''ab'', ''cd''] ! i)"
    by (auto simp: example_response_def less_Suc_eq numeral_2_eq_2)
  have e: "example_response (length [''ab'', ''cd'']) = EndOfStream"
    by (simp add: example_response_def)
  have r: "replicate (Suc (length [''ab'', ''cd''])) ReadLine = [ReadLine, ReadLine, ReadLine]"
    by (simp add: numeral_2_eq_2)
  show ?thesis
    using download_file_concatenates [OF n l e]
    by (simp add: n example_response_def r) (simp add: example_process_def)
qed

text \<open>
  The loop returns only on a response that ends, with \<^verbatim>\<open>null\<close> or an exception; on a
  response of lines without end \<open>download_file\<close> does not return.
\<close>

lemma download_file_loop_returns:
  assumes "download_file_loop r sb s = Some y"
  shows "\<exists>n. \<forall>l. stream r (position r + n) \<noteq> Line l"
proof (rule download_file_loop.raw_induct
    [where P = "\<lambda>r sb s y. \<exists>n. \<forall>l. stream r (position r + n) \<noteq> Line l", OF _ assms])
  fix loop :: "reader \<Rightarrow> string \<Rightarrow> 'a process \<Rightarrow> (('a process \<times> reader) \<times> (error + string)) option"
  fix r sb s y
  assume IH: "\<And>r sb s y. loop r sb s = Some y \<Longrightarrow> \<exists>n. \<forall>l. stream r (position r + n) \<noteq> Line l"
  assume step: "(case readLine r s of
        ((s', r'), Inl e) \<Rightarrow> Some ((s', r'), Inl e)
      | ((s', r'), Inr None) \<Rightarrow> Some ((s', r'), Inr sb)
      | ((s', r'), Inr (Some inputLine)) \<Rightarrow> loop r' (StringBuilder_append sb inputLine) s') = Some y"
  show "\<exists>n. \<forall>l. stream r (position r + n) \<noteq> Line l"
  proof (cases "stream r (position r)")
    case (Line l)
    with step have "loop (r\<lparr>position := position r + 1\<rparr>) (StringBuilder_append sb l)
        (emit ReadLine s) = Some y"
      by (simp add: readLine_def)
    from IH [OF this] obtain n where "\<forall>l. stream r (Suc (position r + n)) \<noteq> Line l"
      by auto
    then have "\<forall>l. stream r (position r + Suc n) \<noteq> Line l" by simp
    then show ?thesis by blast
  next
    case EndOfStream
    then have "\<forall>l. stream r (position r + 0) \<noteq> Line l" by simp
    then show ?thesis by blast
  next
    case ReadFails
    then have "\<forall>l. stream r (position r + 0) \<noteq> Line l" by simp
    then show ?thesis by blast
  qed
qed

lemma download_file_endless:
  assumes "network s url = Inr response" and "\<forall>n. \<exists>l. response n = Line l"
  shows "download_file url s = None"
proof -
  have "download_file_loop (BufferedReader_new (InputStreamReader_new response)) StringBuilder_new
          (emit (OpenConnection url) s) = None"
  proof (rule ccontr)
    assume "download_file_loop (BufferedReader_new (InputStreamReader_new response)) StringBuilder_new
          (emit (OpenConnection url) s) \<noteq> None"
    then obtain y where "download_file_loop (BufferedReader_new (InputStreamReader_new response))
          StringBuilder_new (emit (OpenConnection url) s) = Some y" by blast
    from download_file_loop_returns [OF this] obtain n where "\<forall>l. response n \<noteq> Line l"
      by (auto simp: BufferedReader_new_def InputStreamReader_new_def)
    with assms(2) show False by blast
  qed
  then show ?thesis
    using assms(1)
    by (simp add: download_file_def URL_new_def openConnection_def getInputStream_def emit_def)
qed

section \<open>The exported entry point\<close>





end
